(* ===== verification/Prelude.thy ===== *)
theory Prelude
  imports Main "HOL-Library.Word" "HOL-Library.AList"
begin

section \<open>Shared vocabulary of the proxy model\<close>

text \<open>
  What every component of the proxy shares: the machine integers, Rust's \<open>String\<close> as a
  string of UTF-8 bytes, \<open>HashMap\<close> as an association list whose keys are distinct, the
  string functions of the standard library the sources call, and the interfaces
  (\<open>keyed_store\<close>, \<open>iterable_store\<close>, \<open>reloadable\<close>) that several components rely on.
\<close>

unbundle bit_operations_syntax

named_theorems frame_simps \<open>which fields an operation leaves unchanged\<close>
named_theorems store_simps \<open>lookups after an update of a map\<close>

subsection \<open>Machine integers, bytes and strings\<close>

type_synonym byte = "8 word"
type_synonym u16 = "16 word"
type_synonym u32 = "32 word"
type_synonym u64 = "64 word"
type_synonym usize = "64 word"

text \<open>
  A Rust \<open>String\<close> is a vector of UTF-8 bytes. The model keeps the bytes: a \<open>string\<close> is a
  list of 8-bit characters, and \<open>as_bytes\<close> and \<open>of_bytes\<close> are the two views of it.
\<close>

definition as_bytes :: "string \<Rightarrow> byte list" where
  "as_bytes s = map of_char s"

definition of_bytes :: "byte list \<Rightarrow> string" where
  "of_bytes bs = map (\<lambda>b. char_of (unat b)) bs"

lemma word_eqI_unat: "unat a = unat b \<Longrightarrow> a = (b :: 'a :: len word)"
  by (rule unsigned_word_eqI)

lemma unat_byte_lt: "unat (b :: byte) < 256"
  using unsigned_less [of b, where 'a = nat] by simp

lemma unat_of_char [simp]: "unat (of_char c :: byte) = of_char c"
proof -
  have "(of_char c :: byte) = of_nat (of_char c)"
    by (cases c) (simp add: of_char_def split: if_splits)
  then have "unat (of_char c :: byte) = of_char c mod 2 ^ 8"
    by (simp only: unat_of_nat) simp
  then show ?thesis by simp
qed

lemma of_char_char_of_unat [simp]: "of_char (char_of (unat b)) = (b :: byte)"
proof (rule word_eqI_unat)
  show "unat (of_char (char_of (unat b)) :: byte) = unat b"
    using unat_byte_lt [of b] by simp
qed

lemma of_bytes_as_bytes [simp]: "of_bytes (as_bytes s) = s"
  by (simp add: as_bytes_def of_bytes_def comp_def)

lemma as_bytes_of_bytes [simp]: "as_bytes (of_bytes bs) = bs"
  by (simp add: as_bytes_def of_bytes_def comp_def)

lemma length_as_bytes [simp]: "length (as_bytes s) = length s"
  by (simp add: as_bytes_def)

lemma length_of_bytes [simp]: "length (of_bytes bs) = length bs"
  by (simp add: of_bytes_def)

lemma as_bytes_eq_iff [simp]: "as_bytes s = as_bytes t \<longleftrightarrow> s = t"
  by (metis of_bytes_as_bytes)

lemma of_bytes_eq_iff [simp]: "of_bytes s = of_bytes t \<longleftrightarrow> s = t"
  by (metis as_bytes_of_bytes)

lemma as_bytes_Nil [simp]: "as_bytes [] = []" and of_bytes_Nil [simp]: "of_bytes [] = []"
  by (simp_all add: as_bytes_def of_bytes_def)

lemma as_bytes_append [simp]: "as_bytes (s @ t) = as_bytes s @ as_bytes t"
  by (simp add: as_bytes_def)

lemma of_bytes_append [simp]: "of_bytes (s @ t) = of_bytes s @ of_bytes t"
  by (simp add: of_bytes_def)

lemma as_bytes_eq_Nil [simp]: "as_bytes s = [] \<longleftrightarrow> s = []"
  by (simp add: as_bytes_def)

lemma of_bytes_eq_Nil [simp]: "of_bytes s = [] \<longleftrightarrow> s = []"
  by (simp add: of_bytes_def)

subsection \<open>String functions of the standard library\<close>

text \<open>
  \<open>to_lowercase\<close> is \<open>str::to_lowercase\<close>: ASCII letters are mapped one by one; a string with
  a non-ASCII character goes through the Unicode case tables, which are the parameter \<open>uni\<close>.
\<close>

definition is_ascii :: "string \<Rightarrow> bool" where
  "is_ascii s = list_all (\<lambda>c. (of_char c :: nat) < 128) s"

definition ascii_lower :: "char \<Rightarrow> char" where
  "ascii_lower c =
     (let n = (of_char c :: nat) in if 65 \<le> n \<and> n \<le> 90 then char_of (n + 32) else c)"

definition to_lowercase :: "(string \<Rightarrow> string) \<Rightarrow> string \<Rightarrow> string" where
  "to_lowercase uni s = (if is_ascii s then map ascii_lower s else uni s)"

lemma of_char_ascii_lower:
  "(of_char (ascii_lower c) :: nat) =
     (if 65 \<le> (of_char c :: nat) \<and> (of_char c :: nat) \<le> 90 then of_char c + 32 else of_char c)"
  by (simp add: ascii_lower_def Let_def)

lemma ascii_lower_idem [simp]: "ascii_lower (ascii_lower c) = ascii_lower c"
  by (simp add: ascii_lower_def Let_def)

lemma is_ascii_map_lower [simp]: "is_ascii s \<Longrightarrow> is_ascii (map ascii_lower s)"
  by (auto simp: is_ascii_def list_all_iff of_char_ascii_lower)

lemma to_lowercase_ascii_idem:
  "is_ascii s \<Longrightarrow> to_lowercase uni (to_lowercase uni s) = to_lowercase uni s"
  by (simp add: to_lowercase_def comp_def)

text \<open>\<open>slice::join\<close> on strings, and \<open>str::trim_end_matches\<close> for one character.\<close>

fun join :: "string \<Rightarrow> string list \<Rightarrow> string" where
  "join sep [] = []"
| "join sep [s] = s"
| "join sep (s # t # ss) = s @ sep @ join sep (t # ss)"

definition trim_end_matches :: "char \<Rightarrow> string \<Rightarrow> string" where
  "trim_end_matches c s = rev (dropWhile (\<lambda>d. d = c) (rev s))"

lemma trim_end_matches_last: "trim_end_matches c s \<noteq> [] \<Longrightarrow> last (trim_end_matches c s) \<noteq> c"
  unfolding trim_end_matches_def
  using hd_dropWhile [of "\<lambda>d. d = c" "rev s"] by (auto simp: last_rev)

lemma trim_end_matches_split: "\<exists>n. s = trim_end_matches c s @ replicate n c"
proof -
  let ?p = "takeWhile (\<lambda>d. d = c) (rev s)"
  have "?p = replicate (length ?p) c"
    by (rule replicate_eqI) (auto dest: set_takeWhileD)
  then have "rev ?p = replicate (length ?p) c" by (metis rev_replicate)
  moreover have "s = trim_end_matches c s @ rev ?p"
    unfolding trim_end_matches_def rev_append [symmetric] by simp
  ultimately show ?thesis by metis
qed

subsection \<open>\<open>Iterator::min_by_key\<close>: the first of the least elements\<close>

fun min_by_key :: "('a \<Rightarrow> 'k :: linorder) \<Rightarrow> 'a list \<Rightarrow> 'a option" where
  "min_by_key f [] = None"
| "min_by_key f (x # xs) =
     (case min_by_key f xs of
        None \<Rightarrow> Some x
      | Some y \<Rightarrow> if f x \<le> f y then Some x else Some y)"

lemma min_by_key_None [simp]: "min_by_key f xs = None \<longleftrightarrow> xs = []"
  by (cases xs) (auto split: option.splits)

lemma min_by_key_mem: "min_by_key f xs = Some x \<Longrightarrow> x \<in> set xs"
  by (induction xs arbitrary: x) (auto split: option.splits if_splits)

lemma min_by_key_least: "min_by_key f xs = Some x \<Longrightarrow> y \<in> set xs \<Longrightarrow> f x \<le> f y"
proof (induction xs arbitrary: x y)
  case Nil
  then show ?case by simp
next
  case (Cons a xs)
  show ?case
  proof (cases "min_by_key f xs")
    case None
    with Cons.prems show ?thesis by simp
  next
    case (Some z)
    have z: "\<And>w. w \<in> set xs \<Longrightarrow> f z \<le> f w" using Cons.IH [OF Some] .
    show ?thesis
    proof (cases "f a \<le> f z")
      case True
      with Some Cons.prems have "x = a" by simp
      with True z Cons.prems(2) show ?thesis by (cases "y = a") (auto intro: order.trans)
    next
      case False
      with Some Cons.prems have "x = z" by simp
      with False z Cons.prems(2) show ?thesis by (cases "y = a") auto
    qed
  qed
qed

lemma min_by_key_const: "(\<And>x. x \<in> set xs \<Longrightarrow> f x = k) \<Longrightarrow> xs \<noteq> [] \<Longrightarrow> min_by_key f xs = Some (hd xs)"
  by (cases xs) (auto split: option.splits dest: min_by_key_mem)

subsection \<open>\<open>HashMap\<close>\<close>

text \<open>
  A \<open>HashMap\<close> is the list of its entries, in one of the orders its iterator may take. The
  iteration order of the real map is unspecified, so no property below depends on it: they are
  stated on lookups (\<open>hm_get\<close>) and on the set of entries.
\<close>

type_synonym ('k, 'v) hashmap = "('k \<times> 'v) list"

definition hm_new :: "('k, 'v) hashmap" where
  "hm_new = []"

definition hm_insert :: "'k \<Rightarrow> 'v \<Rightarrow> ('k, 'v) hashmap \<Rightarrow> ('k, 'v) hashmap" where
  "hm_insert k v m = AList.update k v m"

definition hm_get :: "('k, 'v) hashmap \<Rightarrow> 'k \<Rightarrow> 'v option" where
  "hm_get m k = map_of m k"

definition hm_keys :: "('k, 'v) hashmap \<Rightarrow> 'k set" where
  "hm_keys m = fst ` set m"

definition hm_wf :: "('k, 'v) hashmap \<Rightarrow> bool" where
  "hm_wf m = distinct (map fst m)"

text \<open>The contract of a keyed store: what a lookup returns after an insertion.\<close>

locale keyed_store =
  fixes new_store :: 'm
    and put :: "'k \<Rightarrow> 'v \<Rightarrow> 'm \<Rightarrow> 'm"
    and look :: "'m \<Rightarrow> 'k \<Rightarrow> 'v option"
  assumes look_new: "look new_store k = None"
    and look_put: "look (put k v m) k' = (if k' = k then Some v else look m k')"
begin

lemma look_put_same: "look (put k v m) k = Some v"
  by (simp add: look_put)

lemma look_put_other: "k' \<noteq> k \<Longrightarrow> look (put k v m) k' = look m k'"
  by (simp add: look_put)

lemma look_put_all:
  "look (fold (\<lambda>x. put (f x) (g x)) xs m) k =
     (case map_of (rev (map (\<lambda>x. (f x, g x)) xs)) k of Some v \<Rightarrow> Some v | None \<Rightarrow> look m k)"
  by (induction xs arbitrary: m)
    (auto simp: look_put map_add_def map_of_append split: option.splits)

lemma look_put_all_absent: "k \<notin> f ` set xs \<Longrightarrow> look (fold (\<lambda>x. put (f x) (g x)) xs m) k = look m k"
  by (induction xs arbitrary: m) (auto simp: look_put)

lemma look_put_all_last:
  assumes "f x = k" and "k \<notin> f ` set ys"
  shows "look (fold (\<lambda>x. put (f x) (g x)) (xs @ x # ys) m) k = Some (g x)"
  using assms by (simp add: look_put_all_absent look_put)

lemma look_put_all_distinct:
  assumes "distinct (map f xs)" and "x \<in> set xs"
  shows "look (fold (\<lambda>x. put (f x) (g x)) xs m) (f x) = Some (g x)"
proof -
  from assms(2) obtain ys zs where xs: "xs = ys @ x # zs" by (meson split_list)
  with assms(1) have "f x \<notin> f ` set zs" by auto
  then show ?thesis unfolding xs by (intro look_put_all_last) auto
qed

end

text \<open>A store whose entries can be iterated: each key once, with the value a lookup gives.\<close>

locale iterable_store = keyed_store +
  fixes entries :: "'a \<Rightarrow> ('b \<times> 'c) list"
    and wf_store :: "'a \<Rightarrow> bool"
  assumes wf_new: "wf_store new_store"
    and wf_put: "wf_store m \<Longrightarrow> wf_store (put k v m)"
    and entries_distinct: "wf_store m \<Longrightarrow> distinct (map fst (entries m))"
    and entries_look: "wf_store m \<Longrightarrow> look m k = Some v \<longleftrightarrow> (k, v) \<in> set (entries m)"
begin

lemma wf_put_all: "wf_store m \<Longrightarrow> wf_store (fold (\<lambda>x. put (f x) (g x)) xs m)"
  by (induction xs arbitrary: m) (auto intro: wf_put)

lemma entries_put:
  assumes "wf_store m"
  shows "set (entries (put k v m)) = insert (k, v) {e \<in> set (entries m). fst e \<noteq> k}"
proof (rule set_eqI)
  fix e :: "'b \<times> 'c"
  obtain a b where e: "e = (a, b)" by (cases e)
  have "e \<in> set (entries (put k v m)) \<longleftrightarrow> look (put k v m) a = Some b"
    by (simp add: e entries_look [OF wf_put [OF assms]])
  also have "\<dots> \<longleftrightarrow> e \<in> insert (k, v) {e \<in> set (entries m). fst e \<noteq> k}"
    by (auto simp: e look_put entries_look [OF assms])
  finally show "e \<in> set (entries (put k v m)) \<longleftrightarrow>
    e \<in> insert (k, v) {e \<in> set (entries m). fst e \<noteq> k}" .
qed

end

interpretation hm: iterable_store hm_new hm_insert hm_get "\<lambda>m. m" hm_wf
  by unfold_locales
    (auto simp: hm_new_def hm_insert_def hm_get_def hm_wf_def update_conv' intro: distinct_update)

lemmas hm_lookup [store_simps] = hm.look_new hm.look_put

lemma hm_keys_insert [simp]: "hm_keys (hm_insert k v m) = insert k (hm_keys m)"
  by (simp add: hm_keys_def hm_insert_def dom_map_of_conv_image_fst [symmetric] update_conv')

lemma hm_keys_new [simp]: "hm_keys hm_new = {}"
  by (simp add: hm_keys_def hm_new_def)

lemma hm_get_keys: "hm_get m k \<noteq> None \<longleftrightarrow> k \<in> hm_keys m"
  by (metis domIff dom_map_of_conv_image_fst hm_get_def hm_keys_def)

lemma hm_insert_mem: "e \<in> set (hm_insert k v m) \<Longrightarrow> e = (k, v) \<or> e \<in> set m"
  unfolding hm_insert_def by (induction m) (auto split: if_splits)

subsection \<open>Hot reload\<close>

text \<open>
  A cell whose content is replaced while the program runs: it is built from the environment of
  the moment (\<open>'e\<close>) and a configuration that stays as it is; a successful build replaces the
  content, a failed build leaves everything as it is.
\<close>

lemma map_filter_append [simp]:
  "List.map_filter f (xs @ ys) = List.map_filter f xs @ List.map_filter f ys"
  by (simp add: List.map_filter_def)

locale reloadable =
  fixes current :: "'s \<Rightarrow> 'a"
    and settings :: "'s \<Rightarrow> 'c"
    and build :: "'e \<Rightarrow> 'c \<Rightarrow> 'a option"
    and reload :: "'e \<Rightarrow> 's \<Rightarrow> 's"
  assumes reload_ok: "build e (settings s) = Some a \<Longrightarrow> current (reload e s) = a"
    and reload_fail: "build e (settings s) = None \<Longrightarrow> reload e s = s"
    and settings_reload: "settings (reload e s) = settings s"
begin

lemma current_reload:
  "current (reload e s) = (case build e (settings s) of Some a \<Rightarrow> a | None \<Rightarrow> current s)"
  by (auto simp: reload_ok reload_fail split: option.split)

lemma settings_reload_all: "settings (fold reload es s) = settings s"
  by (induction es arbitrary: s) (simp_all add: settings_reload)

lemma current_reload_all:
  "current (fold reload es s) = last (current s # List.map_filter (\<lambda>e. build e (settings s)) es)"
proof (induction es arbitrary: s)
  case Nil
  show ?case by (simp add: List.map_filter_simps)
next
  case (Cons e es)
  then show ?case
    by (auto simp: List.map_filter_simps current_reload settings_reload split: option.split)
qed

lemma reload_all_failed:
  "(\<And>e. e \<in> set es \<Longrightarrow> build e (settings s) = None) \<Longrightarrow> fold reload es s = s"
  by (induction es arbitrary: s) (auto simp: reload_fail)

end

end
