(* ===== verification/Utf8.thy ===== *)
theory Utf8
  imports Prelude
begin

section \<open>UTF-8 as the standard library reads it\<close>

text \<open>
  \<open>str::from_utf8\<close>, \<open>String::from_utf8\<close> and \<open>String::from_utf8_lossy\<close>, which the handler
  and the Lua utility functions apply to request bodies, response bodies and decoded base64.
  All three walk over the bytes with the table of well-formed sequences: \<open>utf8_scan\<close> is one
  step of that walk, \<open>utf8_valid\<close> the validation and \<open>utf8_lossy\<close> the conversion in which every
  maximal ill-formed prefix becomes one U+FFFD.
\<close>

definition is_cont :: "byte \<Rightarrow> bool" where
  "is_cont b = (0x80 \<le> b \<and> b \<le> 0xBF)"

text \<open>The range of the second byte of a three- or four-byte sequence depends on the first.\<close>

definition second3 :: "byte \<Rightarrow> byte \<Rightarrow> bool" where
  "second3 a b =
     (if a = 0xE0 then 0xA0 \<le> b \<and> b \<le> 0xBF
      else if a = 0xED then 0x80 \<le> b \<and> b \<le> 0x9F
      else is_cont b)"

definition second4 :: "byte \<Rightarrow> byte \<Rightarrow> bool" where
  "second4 a b =
     (if a = 0xF0 then 0x90 \<le> b \<and> b \<le> 0xBF
      else if a = 0xF4 then 0x80 \<le> b \<and> b \<le> 0x8F
      else is_cont b)"

text \<open>How long a sequence its first byte announces; 0 for a byte that starts none.\<close>

definition char_width :: "byte \<Rightarrow> nat" where
  "char_width a =
     (if a < 0x80 then 1
      else if 0xC2 \<le> a \<and> a \<le> 0xDF then 2
      else if 0xE0 \<le> a \<and> a \<le> 0xEF then 3
      else if 0xF0 \<le> a \<and> a \<le> 0xF4 then 4
      else 0)"

text \<open>
  One step at a non-empty input: whether a well-formed sequence starts here, and how many bytes
  it has, or how many bytes of an ill-formed one are consumed.
\<close>

definition utf8_scan :: "byte \<Rightarrow> byte list \<Rightarrow> bool \<times> nat" where
  "utf8_scan a bs =
     (if char_width a = 1 then (True, 1)
      else if char_width a = 2 then
        (case bs of b # _ \<Rightarrow> if is_cont b then (True, 2) else (False, 1) | [] \<Rightarrow> (False, 1))
      else if char_width a = 3 then
        (case bs of
           b # bs' \<Rightarrow>
             if second3 a b
             then (case bs' of c # _ \<Rightarrow> if is_cont c then (True, 3) else (False, 2) | [] \<Rightarrow> (False, 2))
             else (False, 1)
         | [] \<Rightarrow> (False, 1))
      else if char_width a = 4 then
        (case bs of
           b # bs' \<Rightarrow>
             if second4 a b
             then (case bs' of
                     c # bs'' \<Rightarrow>
                       if is_cont c
                       then (case bs'' of
                               d # _ \<Rightarrow> if is_cont d then (True, 4) else (False, 3)
                             | [] \<Rightarrow> (False, 3))
                       else (False, 2)
                   | [] \<Rightarrow> (False, 2))
             else (False, 1)
         | [] \<Rightarrow> (False, 1))
      else (False, 1))"

lemma utf8_scan_bounds:
  assumes "utf8_scan a bs = (ok, n)"
  shows "0 < n" and "n \<le> Suc (length bs)"
  using assms by (auto simp: utf8_scan_def split: list.splits if_splits)

lemma utf8_scan_shrinks:
  "(ok, n) = utf8_scan a bs \<Longrightarrow> length (drop n (a # bs)) < length (a # bs)"
  using utf8_scan_bounds(1) [of a bs ok n] by simp

lemma utf8_scan_True:
  assumes "utf8_scan a bs = (True, n)"
  shows "char_width a = n \<and>
    (n = 1 \<or>
     n = 2 \<and> (\<exists>b r. bs = b # r \<and> is_cont b) \<or>
     n = 3 \<and> (\<exists>b c r. bs = b # c # r \<and> second3 a b \<and> is_cont c) \<or>
     n = 4 \<and> (\<exists>b c d r. bs = b # c # d # r \<and> second4 a b \<and> is_cont c \<and> is_cont d))"
  using assms by (auto simp: utf8_scan_def split: list.splits if_splits)

text \<open>A well-formed sequence is recognised by its own bytes, whatever follows.\<close>

lemma utf8_scan_take:
  assumes "utf8_scan a bs = (True, n)"
  shows "utf8_scan a (take (n - 1) bs @ cs) = (True, n)"
proof -
  note [simp] = utf8_scan_def
  from utf8_scan_True [OF assms]
  consider "char_width a = 1" "n = 1"
    | b r where "char_width a = 2" "n = 2" "bs = b # r" "is_cont b"
    | b c r where "char_width a = 3" "n = 3" "bs = b # c # r" "second3 a b" "is_cont c"
    | b c d r where "char_width a = 4" "n = 4" "bs = b # c # d # r" "second4 a b" "is_cont c" "is_cont d"
    by blast
  then show ?thesis by cases simp_all
qed

function utf8_valid :: "byte list \<Rightarrow> bool" where
  "utf8_valid [] = True"
| "utf8_valid (a # bs) =
     (case utf8_scan a bs of (ok, n) \<Rightarrow> ok \<and> utf8_valid (drop n (a # bs)))"
  by pat_completeness auto
termination
  by (relation "measure length") (simp, metis in_measure utf8_scan_shrinks)

text \<open>U+FFFD in UTF-8.\<close>

definition replacement :: "byte list" where
  "replacement = [0xEF, 0xBF, 0xBD]"

function utf8_lossy :: "byte list \<Rightarrow> byte list" where
  "utf8_lossy [] = []"
| "utf8_lossy (a # bs) =
     (case utf8_scan a bs of
        (ok, n) \<Rightarrow> (if ok then take n (a # bs) else replacement) @ utf8_lossy (drop n (a # bs)))"
  by pat_completeness auto
termination
  by (relation "measure length") (simp, metis in_measure utf8_scan_shrinks)

text \<open>\<open>String::from_utf8(v)\<close> as an \<open>Option\<close>, and \<open>String::from_utf8_lossy(v)\<close> as a string.\<close>

definition from_utf8 :: "byte list \<Rightarrow> string option" where
  "from_utf8 bs = (if utf8_valid bs then Some (of_bytes bs) else None)"

definition from_utf8_lossy :: "byte list \<Rightarrow> string" where
  "from_utf8_lossy bs = of_bytes (utf8_lossy bs)"

subsection \<open>Validation and lossy conversion agree\<close>

lemma utf8_lossy_valid: "utf8_valid (utf8_lossy bs)"
proof (induction bs rule: utf8_lossy.induct)
  case (2 a bs)
  obtain ok n where scan: "utf8_scan a bs = (ok, n)" by (cases "utf8_scan a bs")
  with 2 have IH: "utf8_valid (utf8_lossy (drop n (a # bs)))" by metis
  have pos: "0 < n" and le: "n \<le> Suc (length bs)"
    using utf8_scan_bounds [OF scan] by simp_all
  show ?case
  proof (cases ok)
    case True
    let ?rest = "utf8_lossy (drop n (a # bs))"
    from scan True have "utf8_scan a (take (n - 1) bs @ ?rest) = (True, n)"
      by (intro utf8_scan_take) simp
    moreover have "take n (a # bs) = a # take (n - 1) bs" using pos by (cases n) simp_all
    moreover have "drop n (a # take (n - 1) bs @ ?rest) = ?rest"
      using pos le by (cases n) simp_all
    ultimately show ?thesis using scan True IH by simp
  next
    case False
    have "utf8_scan 0xEF (0xBF # 0xBD # cs) = (True, 3)" for cs
      by (simp add: utf8_scan_def char_width_def second3_def is_cont_def)
    with False scan IH show ?thesis by (simp add: replacement_def)
  qed
qed simp

lemma utf8_lossy_id: "utf8_valid bs \<Longrightarrow> utf8_lossy bs = bs"
proof (induction bs rule: utf8_lossy.induct)
  case (2 a bs)
  obtain ok n where scan: "utf8_scan a bs = (ok, n)" by (cases "utf8_scan a bs")
  with 2 have "utf8_lossy (drop n (a # bs)) = drop n (a # bs)" and "ok" by auto
  with scan show ?case by simp
qed simp

lemma utf8_lossy_id_iff: "utf8_lossy bs = bs \<longleftrightarrow> utf8_valid bs"
  using utf8_lossy_id utf8_lossy_valid by metis

lemma utf8_lossy_idem [simp]: "utf8_lossy (utf8_lossy bs) = utf8_lossy bs"
  by (simp add: utf8_lossy_id utf8_lossy_valid)

lemma utf8_lossy_Nil_iff [simp]: "utf8_lossy bs = [] \<longleftrightarrow> bs = []"
proof (cases bs)
  case (Cons a cs)
  obtain ok n where scan: "utf8_scan a cs = (ok, n)" by (cases "utf8_scan a cs")
  then have "take n (a # cs) \<noteq> []" using utf8_scan_bounds(1) [OF scan] by simp
  with scan Cons show ?thesis by (simp add: replacement_def del: take_eq_Nil)
qed simp

text \<open>ASCII bytes are well-formed on their own, and validity is compositional.\<close>

lemma utf8_valid_append: "utf8_valid xs \<Longrightarrow> utf8_valid ys \<Longrightarrow> utf8_valid (xs @ ys)"
proof (induction xs rule: utf8_valid.induct)
  case (2 a bs)
  obtain ok n where scan: "utf8_scan a bs = (ok, n)" by (cases "utf8_scan a bs")
  with 2 have ok: "ok" and IH: "utf8_valid (drop n (a # bs) @ ys)" by auto
  have pos: "0 < n" and le: "n \<le> Suc (length bs)"
    using utf8_scan_bounds [OF scan] by simp_all
  have split: "bs @ ys = take (n - 1) bs @ (drop (n - 1) bs @ ys)"
    by (simp only: append.assoc [symmetric] append_take_drop_id)
  have "utf8_scan a (bs @ ys) = (True, n)"
    by (subst split, rule utf8_scan_take) (use scan ok in simp)
  moreover have "drop n (a # bs @ ys) = drop n (a # bs) @ ys"
    using le pos by (cases n) simp_all
  ultimately show ?case using IH by simp
qed simp

lemma utf8_valid_ascii: "(\<And>b. b \<in> set bs \<Longrightarrow> b < 0x80) \<Longrightarrow> utf8_valid bs"
  by (induction bs) (simp_all add: utf8_scan_def char_width_def)

end
