(* ===== verification/Base64.thy ===== *)
theory Base64
  imports Utf8
begin

section \<open>base64 for the plugins (src/lua/engine.rs)\<close>

text \<open>
  \<open>base64_encode\<close> and \<open>base64_decode\<close> of src/lua/engine.rs, on 32-bit words and bytes as the
  source has them, and the two closures \<open>setup_globals\<close> registers for Lua. The lemmas give the
  shape of the output, the exact result of decoding an encoded buffer, and the behaviour of the
  decoder on malformed input.
\<close>

definition CHARS :: "byte list" where
  "CHARS = as_bytes ''ABCDEFGHIJKLMNOPQRSTUVWXYZabcdefghijklmnopqrstuvwxyz0123456789+/''"

fun chunks3 :: "'a list \<Rightarrow> 'a list list" where
  "chunks3 [] = []"
| "chunks3 [a] = [[a]]"
| "chunks3 [a, b] = [[a, b]]"
| "chunks3 (a # b # c # r) = [a, b, c] # chunks3 r"

definition chunk_word :: "byte list \<Rightarrow> u32" where
  "chunk_word chunk =
     (let (b0, b1, b2) =
        (if length chunk = 1 then (chunk ! 0, 0, 0)
         else if length chunk = 2 then (chunk ! 0, chunk ! 1, 0)
         else (chunk ! 0, chunk ! 1, chunk ! 2))
      in push_bit 16 (ucast b0) OR push_bit 8 (ucast b1) OR ucast b2)"

text \<open>\<open>CHARS[((n >> k) & 63) as usize] as char\<close>.\<close>

definition sextet_char :: "u32 \<Rightarrow> nat \<Rightarrow> char" where
  "sextet_char n k = char_of (unat (CHARS ! unat (drop_bit k n AND 63)))"

definition encode_chunk :: "byte list \<Rightarrow> string" where
  "encode_chunk chunk =
     (let n = chunk_word chunk in
      [sextet_char n 18,
       sextet_char n 12,
       if length chunk > 1 then sextet_char n 6 else CHR ''='',
       if length chunk > 2 then sextet_char n 0 else CHR ''=''])"

definition base64_encode :: "byte list \<Rightarrow> string" where
  "base64_encode data = concat (map encode_chunk (chunks3 data))"

text \<open>The decoding table: an array of 128 signed bytes, \<open>-1\<close> where there is no character.\<close>

definition DECODE :: "8 word list" where
  "DECODE = fold (\<lambda>i t. t[unat (CHARS ! i) := of_nat i]) [0..<length CHARS] (replicate 128 (-1))"

definition decode_byte :: "byte \<Rightarrow> 8 word" where
  "decode_byte b = (if b < 128 then DECODE ! unat b else - 1)"

text \<open>
  The loop \<open>while i + 3 < bytes.len()\<close>, on the bytes from position \<open>i\<close> on and with the output
  vector. It stops at the first block that contains \<open>=\<close>, and fails at one that contains a byte
  the table does not know.
\<close>

fun decode_loop :: "byte list \<Rightarrow> byte list \<Rightarrow> byte list option" where
  "decode_loop (c0 # c1 # c2 # c3 # rest) out =
     (if list_ex (\<lambda>b. b = of_char CHR ''='') [c0, c1, c2, c3] then Some out
      else
        (let v = map decode_byte [c0, c1, c2, c3] in
         if list_ex (\<lambda>x. sint x < 0) v then None
         else
           (let n = push_bit 18 (scast (v ! 0) :: u32) OR push_bit 12 (scast (v ! 1)) OR
                    push_bit 6 (scast (v ! 2)) OR scast (v ! 3)
            in decode_loop rest
                 (out @ [ucast (drop_bit 16 n AND 0xFF), ucast (drop_bit 8 n AND 0xFF),
                         ucast (n AND 0xFF)]))))"
| "decode_loop _ out = Some out"

definition base64_decode :: "string \<Rightarrow> string option" where
  "base64_decode s =
     (case decode_loop (as_bytes s) [] of None \<Rightarrow> None | Some out \<Rightarrow> from_utf8 out)"

text \<open>The globals \<open>base64.encode\<close> and \<open>base64.decode\<close> of \<open>setup_globals\<close>.\<close>

definition lua_base64_encode :: "string \<Rightarrow> string" where
  "lua_base64_encode s = base64_encode (as_bytes s)"

definition lua_base64_decode :: "string \<Rightarrow> string" where
  "lua_base64_decode s = (case base64_decode s of Some t \<Rightarrow> t | None \<Rightarrow> [])"

subsection \<open>The alphabet and the decoding table\<close>

lemma length_CHARS [simp]: "length CHARS = 64"
  by (simp add: CHARS_def)

lemma CHARS_ascii: "b \<in> set CHARS \<Longrightarrow> unat b < 128"
  unfolding CHARS_def as_bytes_def by auto

lemma distinct_CHARS: "distinct CHARS"
proof -
  have "inj (of_char :: char \<Rightarrow> byte)"
    by (rule injI, drule arg_cong [where f = "\<lambda>b. char_of (unat b) :: char"]) simp
  then show ?thesis
    by (simp add: CHARS_def as_bytes_def distinct_map inj_on_def)
qed

lemma eq_not_in_CHARS: "of_char CHR ''='' \<notin> set CHARS"
  by (simp add: CHARS_def as_bytes_def)

lemma sextet_index: "unat (drop_bit k (n :: u32) AND 63) < 64"
proof -
  have "drop_bit k n AND 63 \<le> 63" by (rule word_and_le1)
  then have "unat (drop_bit k n AND 63) \<le> unat (63 :: u32)" by (simp add: word_le_nat_alt)
  then show ?thesis by simp
qed

text \<open>A table filled by an indexed loop, at the positions the loop wrote and at the others.\<close>

lemma fold_table_hit:
  assumes "n \<le> length cs" and "distinct (map f cs)" and "\<And>c. c \<in> set cs \<Longrightarrow> f c < length t"
    and "k < n"
  shows "fold (\<lambda>i t. t[f (cs ! i) := g i]) [0..<n] t ! f (cs ! k) = g k"
  using assms
proof (induction n)
  case (Suc n)
  have len: "length (fold (\<lambda>i t. t[f (cs ! i) := g i]) js t) = length t" for js
    by (induction js arbitrary: t) simp_all
  show ?case
  proof (cases "k = n")
    case True
    with Suc.prems show ?thesis by (simp add: len)
  next
    case False
    with Suc.prems have "f (cs ! k) \<noteq> f (cs ! n)"
      by (auto simp: distinct_conv_nth)
    with False Suc show ?thesis by simp
  qed
qed simp

lemma fold_table_miss:
  "(\<And>k. k \<in> set js \<Longrightarrow> f (cs ! k) \<noteq> p) \<Longrightarrow> fold (\<lambda>i t. t[f (cs ! i) := g i]) js t ! p = t ! p"
  by (induction js arbitrary: t) simp_all

lemma decode_CHARS:
  assumes "k < 64"
  shows "decode_byte (CHARS ! k) = of_nat k"
proof -
  have "distinct (map unat CHARS)"
    using distinct_CHARS by (auto simp: distinct_map inj_on_def intro: word_eqI_unat)
  then have "DECODE ! unat (CHARS ! k) = of_nat k"
    unfolding DECODE_def using assms by (intro fold_table_hit) (auto simp: CHARS_ascii)
  moreover have "CHARS ! k < 128"
    using CHARS_ascii [of "CHARS ! k"] assms by (simp add: word_less_nat_alt)
  ultimately show ?thesis by (simp add: decode_byte_def)
qed

lemma decode_not_CHARS:
  assumes "b \<notin> set CHARS"
  shows "decode_byte b = - 1"
proof (cases "b < 128")
  case True
  then have "unat b < 128" by (simp add: word_less_nat_alt)
  have "DECODE ! unat b = replicate 128 (- 1) ! unat b"
    unfolding DECODE_def using assms by (intro fold_table_miss) (auto dest: word_eqI_unat)
  with True \<open>unat b < 128\<close> show ?thesis by (simp add: decode_byte_def)
qed (simp add: decode_byte_def)

lemma decode_byte_negative: "sint (decode_byte b) < 0 \<longleftrightarrow> b \<notin> set CHARS"
proof (cases "b \<in> set CHARS")
  case True
  then obtain k where "k < 64" and "b = CHARS ! k" by (metis in_set_conv_nth length_CHARS)
  then have "decode_byte b = of_nat k" by (simp add: decode_CHARS)
  moreover have "sint (of_nat k :: 8 word) = int k"
    using \<open>k < 64\<close> by (simp add: signed_of_nat signed_take_bit_int_eq_self)
  ultimately show ?thesis using True by simp
qed (simp add: decode_not_CHARS)


subsection \<open>Decoding what was encoded\<close>

lemma of_char_sextet_char:
  "of_char (sextet_char n k) = CHARS ! unat (drop_bit k n AND 63)"
  by (simp add: sextet_char_def)

lemma sextet_char_in_CHARS: "of_char (sextet_char n k) \<in> set CHARS"
  by (simp add: of_char_sextet_char sextet_index)

lemma sint_small: "k < 64 \<Longrightarrow> sint (of_nat k :: 8 word) = int k"
  by (simp add: signed_of_nat signed_take_bit_int_eq_self)

lemma decode_sextet_char:
  "scast (decode_byte (of_char (sextet_char n k))) = (drop_bit k n AND 63 :: u32)"
proof -
  let ?x = "drop_bit k n AND 63 :: u32"
  have "decode_byte (of_char (sextet_char n k)) = of_nat (unat ?x)"
    using sextet_index [of k n] by (simp only: of_char_sextet_char decode_CHARS)
  then have "sint (decode_byte (of_char (sextet_char n k))) = int (unat ?x)"
    using sint_small [OF sextet_index] by simp
  then have "scast (decode_byte (of_char (sextet_char n k))) = (word_of_int (int (unat ?x)) :: u32)"
    by (simp only: scast_eq)
  then show ?thesis by simp
qed

lemma and_63: "x AND 63 = take_bit 6 (x :: u32)"
  by (simp add: take_bit_eq_mask mask_eq_exp_minus_1)

lemma and_0xFF: "x AND 0xFF = take_bit 8 (x :: u32)"
  by (simp add: take_bit_eq_mask mask_eq_exp_minus_1)

lemma sextets_word:
  fixes n :: u32
  assumes "drop_bit 24 n = 0"
  shows "push_bit 18 (drop_bit 18 n AND 63) OR push_bit 12 (drop_bit 12 n AND 63) OR
         push_bit 6 (drop_bit 6 n AND 63) OR (drop_bit 0 n AND 63) = n"
proof (rule bit_word_eqI)
  fix i assume "i < LENGTH(32)"
  have high: "\<not> bit n i" if "24 \<le> i"
    using arg_cong [OF assms, of "\<lambda>w. bit w (i - 24)"] that by (simp add: bit_drop_bit_eq)
  show "bit (push_bit 18 (drop_bit 18 n AND 63) OR push_bit 12 (drop_bit 12 n AND 63) OR
         push_bit 6 (drop_bit 6 n AND 63) OR (drop_bit 0 n AND 63)) i = bit n i"
  proof -
    consider "i < 6" | "6 \<le> i" "i < 12" | "12 \<le> i" "i < 18" | "18 \<le> i" "i < 24" | "24 \<le> i"
      by linarith
    then show ?thesis
      using \<open>i < LENGTH(32)\<close> high unfolding and_63
      by cases (auto simp: bit_or_iff bit_push_bit_iff bit_take_bit_iff bit_drop_bit_eq)
  qed
qed

lemma byte_bit_high: "8 \<le> k \<Longrightarrow> \<not> bit (b :: byte) k"
  using bit_imp_le_length [of b k] by auto

lemma chunk_word_high: "drop_bit 24 (chunk_word c) = 0"
  unfolding chunk_word_def Let_def
  by (rule bit_word_eqI) (auto simp: bit_simps byte_bit_high)

lemma chunk_word3: "chunk_word [a, b, c] = push_bit 16 (ucast a) OR push_bit 8 (ucast b) OR ucast c"
  by (simp add: chunk_word_def)

lemma chunk_word_bytes:
  shows "ucast (drop_bit 16 (chunk_word [a, b, c]) AND 0xFF) = a"
    and "ucast (drop_bit 8 (chunk_word [a, b, c]) AND 0xFF) = b"
    and "ucast (chunk_word [a, b, c] AND 0xFF) = c"
  unfolding chunk_word3 and_0xFF
  by (rule bit_word_eqI; auto simp: bit_simps byte_bit_high)+

lemma decode_loop_block:
  "decode_loop (as_bytes (encode_chunk [a, b, c]) @ rest) out = decode_loop rest (out @ [a, b, c])"
proof -
  let ?n = "chunk_word [a, b, c]"
  have bytes: "as_bytes (encode_chunk [a, b, c]) =
      [of_char (sextet_char ?n 18), of_char (sextet_char ?n 12),
       of_char (sextet_char ?n 6), of_char (sextet_char ?n 0)]"
    by (simp add: encode_chunk_def as_bytes_def Let_def)
  have pad: "of_char (sextet_char ?n k) \<noteq> (of_char CHR ''='' :: byte)" for k
    using sextet_char_in_CHARS eq_not_in_CHARS by metis
  have known: "\<not> sint (decode_byte (of_char (sextet_char ?n k))) < 0" for k
    by (simp add: decode_byte_negative sextet_char_in_CHARS)
  show ?thesis
    unfolding bytes append_Cons append_Nil decode_loop.simps(1)
    by (simp only: Let_def list_ex_iff list.set ball_simps bex_simps list.map pad known if_False nth_Cons_0 nth_Cons_numeral
        One_nat_def nth_Cons_Suc numeral_2_eq_2 numeral_3_eq_3 decode_sextet_char simp_thms
        sextets_word [OF chunk_word_high] chunk_word_bytes)
qed


text \<open>A last block of one or two bytes ends in \<open>=\<close>, at which the decoder stops.\<close>

lemma decode_loop_padded:
  assumes "length c = 1 \<or> length c = 2"
  shows "decode_loop (as_bytes (encode_chunk c)) out = Some out"
proof -
  obtain c0 c1 c2 where "encode_chunk c = [c0, c1, c2, CHR ''='']"
    using assms by (auto simp: encode_chunk_def Let_def)
  then show ?thesis by (simp add: as_bytes_def)
qed

lemma base64_encode_simps [simp]:
  "base64_encode [] = []"
  "base64_encode [a] = encode_chunk [a]"
  "base64_encode [a, b] = encode_chunk [a, b]"
  "base64_encode (a # b # c # r) = encode_chunk [a, b, c] @ base64_encode r"
  by (simp_all add: base64_encode_def)

lemma div3: "(3 + n) div 3 = Suc (n div 3)" "(5 + n) div 3 = Suc (Suc (Suc n) div 3)" for n :: nat
  by presburger+

lemma take3: "take (3 + k) (a # b # c # r) = a # b # c # take k r"
  by (simp add: numeral_3_eq_3)

lemma decode_loop_encode:
  "decode_loop (as_bytes (base64_encode bs)) out = Some (out @ take (3 * (length bs div 3)) bs)"
proof (induction bs arbitrary: out rule: chunks3.induct)
  case (4 a b c r)
  then show ?case by (simp add: decode_loop_block div3 take3)
qed (simp_all add: decode_loop_padded)

lemma base64_decode_encode:
  "base64_decode (base64_encode bs) = from_utf8 (take (3 * (length bs div 3)) bs)"
  by (simp add: base64_decode_def decode_loop_encode)

subsection \<open>The shape of the output\<close>

lemma length_encode_chunk [simp]: "length (encode_chunk c) = 4"
  by (simp add: encode_chunk_def Let_def)

lemma length_base64: "length (base64_encode bs) = 4 * ((length bs + 2) div 3)"
  by (induction bs rule: chunks3.induct) (simp_all add: div3)

lemma encode_chunk_chars:
  "ch \<in> set (encode_chunk c) \<Longrightarrow> of_char ch \<in> set CHARS \<or> ch = CHR ''=''"
  by (auto simp: encode_chunk_def Let_def sextet_char_in_CHARS split: if_splits)

lemma base64_encode_chars:
  "ch \<in> set (base64_encode bs) \<Longrightarrow> of_char ch \<in> set CHARS \<or> ch = CHR ''=''"
  by (auto simp: base64_encode_def dest: encode_chunk_chars)

subsection \<open>The encoder loses nothing\<close>

lemma sextet_char_inj:
  assumes "sextet_char m k = sextet_char n k"
  shows "drop_bit k m AND 63 = drop_bit k n AND 63"
  using arg_cong [OF assms, of "\<lambda>c. scast (decode_byte (of_char c)) :: u32"]
  by (simp only: decode_sextet_char)

lemma sextet_char_not_pad: "sextet_char n k \<noteq> CHR ''=''"
  using sextet_char_in_CHARS [of n k] eq_not_in_CHARS by metis

lemma chunk_word_low:
  "length c = 1 \<Longrightarrow> drop_bit 6 (chunk_word c) AND 63 = 0"
  "length c = 1 \<Longrightarrow> drop_bit 0 (chunk_word c) AND 63 = 0"
  "length c = 2 \<Longrightarrow> drop_bit 0 (chunk_word c) AND 63 = 0"
  unfolding chunk_word_def Let_def and_63
  by (rule bit_word_eqI; auto simp: bit_simps)+

lemma chunk_word_inj:
  assumes "chunk_word c = chunk_word d" and "length c = length d" and "length c \<in> {1, 2, 3}"
  shows "c = d"
proof -
  define pad where "pad x = x @ replicate (3 - length x) (0 :: byte)" for x :: "byte list"
  have word: "chunk_word (pad x) = chunk_word x" and len: "length (pad x) = 3"
    if "length x \<in> {1, 2, 3}" for x
    using that by (auto simp: pad_def chunk_word_def nth_append length_Suc_conv numeral_2_eq_2 numeral_3_eq_3)
  have pc: "pad c = map (\<lambda>k. ucast (drop_bit k (chunk_word c) AND 0xFF)) [16, 8, 0]"
    if "length c \<in> {1, 2, 3}" for c
  proof -
    have "length (pad c) = 3" using that by (rule len)
    then obtain x y z where "pad c = [x, y, z]"
      by (auto simp: length_Suc_conv numeral_3_eq_3)
    with word [OF that] show ?thesis
      using chunk_word_bytes [of x y z] by simp
  qed
  have "pad c = pad d" using pc [of c] pc [of d] assms by simp
  with assms(2) show ?thesis by (simp add: pad_def)
qed

lemma encode_chunk_inj:
  assumes eq: "encode_chunk c = encode_chunk d"
    and c: "length c \<in> {1, 2, 3}" and d: "length d \<in> {1, 2, 3}"
  shows "c = d"
proof -
  let ?m = "chunk_word c" and ?n = "chunk_word d"
  from eq have len: "length c = length d"
    using c d by (auto simp: encode_chunk_def Let_def sextet_char_not_pad sextet_char_not_pad [symmetric])
  from eq have "drop_bit 18 ?m AND 63 = drop_bit 18 ?n AND 63"
    and "drop_bit 12 ?m AND 63 = drop_bit 12 ?n AND 63"
    by (auto simp: encode_chunk_def Let_def intro: sextet_char_inj)
  moreover from eq len c have "drop_bit 6 ?m AND 63 = drop_bit 6 ?n AND 63"
    by (auto simp: encode_chunk_def Let_def chunk_word_low intro: sextet_char_inj)
  moreover from eq len c have "drop_bit 0 ?m AND 63 = drop_bit 0 ?n AND 63"
    by (auto simp: encode_chunk_def Let_def chunk_word_low simp del: drop_bit_0 intro: sextet_char_inj)
  ultimately have "?m = ?n"
    by (metis chunk_word_high sextets_word)
  then show ?thesis using len c by (rule chunk_word_inj)
qed


lemma chunks3_length: "c \<in> set (chunks3 bs) \<Longrightarrow> length c \<in> {1, 2, 3}"
  by (induction bs rule: chunks3.induct) auto

lemma concat_chunks3 [simp]: "concat (chunks3 bs) = bs"
  by (induction bs rule: chunks3.induct) simp_all

lemma concat_map_encode_inj:
  assumes "concat (map encode_chunk cs) = concat (map encode_chunk ds)"
    and "\<And>c. c \<in> set cs \<union> set ds \<Longrightarrow> length c \<in> {1, 2, 3}"
  shows "cs = ds"
  using assms
proof (induction cs arbitrary: ds)
  case Nil
  then show ?case by (cases ds) (auto dest: arg_cong [where f = length])
next
  case (Cons c cs)
  then obtain d ds' where ds: "ds = d # ds'"
    by (cases ds) (auto dest: arg_cong [where f = length])
  with Cons.prems(1) have "encode_chunk c = encode_chunk d"
    and "concat (map encode_chunk cs) = concat (map encode_chunk ds')" by simp_all
  moreover from this(1) have "c = d"
    using Cons.prems(2) ds by (intro encode_chunk_inj) auto
  ultimately show ?case using Cons.IH [of ds'] Cons.prems(2) ds by auto
qed

lemma base64_encode_inj: "base64_encode xs = base64_encode ys \<Longrightarrow> xs = ys"
  unfolding base64_encode_def
  by (metis UnE chunks3_length concat_chunks3 concat_map_encode_inj)

subsection \<open>The decoder on arbitrary input\<close>

text \<open>What precedes a block, as long as it consists of alphabet characters in whole blocks.\<close>

lemma decode_loop_prefix:
  assumes "set xs \<subseteq> set CHARS" and "length xs = 4 * k"
  shows "\<exists>ds. length ds = 3 * k \<and>
    (\<forall>rest. decode_loop (xs @ rest) out = decode_loop rest (out @ ds))"
  using assms
proof (induction k arbitrary: xs out)
  case (Suc k)
  have "length xs = Suc (Suc (Suc (Suc (4 * k))))" using Suc.prems(2) by simp
  then obtain c0 c1 c2 c3 ys where xs: "xs = c0 # c1 # c2 # c3 # ys" and ys: "length ys = 4 * k"
    by (auto simp only: length_Suc_conv)
  with Suc.prems have mem: "c0 \<in> set CHARS" "c1 \<in> set CHARS" "c2 \<in> set CHARS" "c3 \<in> set CHARS"
    and sub: "set ys \<subseteq> set CHARS" by auto
  then have "\<exists>d0 d1 d2. \<forall>r. decode_loop (c0 # c1 # c2 # c3 # r) out = decode_loop r (out @ [d0, d1, d2])"
    using eq_not_in_CHARS by (auto simp: Let_def decode_byte_negative)
  then obtain d0 d1 d2 where
    "\<And>r. decode_loop (c0 # c1 # c2 # c3 # r) out = decode_loop r (out @ [d0, d1, d2])" by blast
  moreover obtain ds where "length ds = 3 * k"
    and "\<And>r. decode_loop (ys @ r) (out @ [d0, d1, d2]) = decode_loop r (out @ [d0, d1, d2] @ ds)"
    using Suc.IH [OF sub ys, of "out @ [d0, d1, d2]"] by auto
  ultimately show ?case
    by (intro exI [of _ "[d0, d1, d2] @ ds"]) (simp add: xs)
qed simp

lemma decode_loop_reject:
  assumes "of_char CHR ''='' \<notin> {c0, c1, c2, c3}" and "\<not> {c0, c1, c2, c3} \<subseteq> set CHARS"
  shows "decode_loop (c0 # c1 # c2 # c3 # rest) out = None"
  using assms by (auto simp: Let_def decode_byte_negative)

lemma decode_loop_stop:
  "of_char CHR ''='' \<in> {c0, c1, c2, c3} \<Longrightarrow> decode_loop (c0 # c1 # c2 # c3 # rest) out = Some out"
  by auto

lemma decode_loop_short: "length rest < 4 \<Longrightarrow> decode_loop rest out = Some out"
  by (induction rest out rule: decode_loop.induct) auto

lemma decode_loop_length:
  "decode_loop bs out = Some r \<Longrightarrow> length r \<le> length out + 3 * (length bs div 4)"
proof (induction bs out rule: decode_loop.induct)
  case (1 c0 c1 c2 c3 rest out)
  have "(4 + length rest) div 4 = Suc (length rest div 4)" by presburger
  with 1 show ?case by (fastforce simp: Let_def split: if_splits)
qed auto


subsection \<open>Properties\<close>

text \<open>
  C33. The encoder is faithful: its output has four characters for every started group of three
  bytes, all from the alphabet or the padding sign, and two different buffers never have the
  same encoding.
\<close>

theorem base64_encode_correct:
  "length (base64_encode bs) = 4 * ((length bs + 2) div 3) \<and>
   set (as_bytes (base64_encode bs)) \<subseteq> insert (of_char CHR ''='') (set CHARS) \<and>
   (base64_encode bs = base64_encode cs \<longleftrightarrow> bs = cs)"
proof -
  have "set (as_bytes (base64_encode bs)) \<subseteq> insert (of_char CHR ''='') (set CHARS)"
    unfolding as_bytes_def using base64_encode_chars [of _ bs] by fastforce
  then show ?thesis by (auto simp: length_base64 dest: base64_encode_inj)
qed

text \<open>
  C32. What \<open>base64.decode\<close> returns for a string that \<open>base64.encode\<close> produced: exactly the
  whole groups of three bytes. The string comes back if and only if its length is a multiple of
  three; otherwise its last one or two bytes are lost, because the loop leaves at the padded
  block instead of decoding it.
\<close>

theorem base64_roundtrip_iff:
  assumes "utf8_valid (as_bytes s)"
  shows "lua_base64_decode (lua_base64_encode s) = s \<longleftrightarrow> 3 dvd length s"
proof
  assume "3 dvd length s"
  then have "take (3 * (length s div 3)) (as_bytes s) = as_bytes s" by simp
  with assms show "lua_base64_decode (lua_base64_encode s) = s"
    by (simp add: lua_base64_decode_def lua_base64_encode_def base64_decode_encode from_utf8_def)
next
  assume eq: "lua_base64_decode (lua_base64_encode s) = s"
  let ?t = "take (3 * (length s div 3)) (as_bytes s)"
  have "s = [] \<or> s = of_bytes ?t"
    using eq by (simp add: lua_base64_decode_def lua_base64_encode_def base64_decode_encode
        from_utf8_def split: if_splits)
  then have "length s = 0 \<or> length s = min (length s) (3 * (length s div 3))"
    by (metis length_as_bytes length_of_bytes length_take list.size(3) min.commute)
  then show "3 dvd length s" by presburger
qed

lemma three_dvd: "3 dvd Suc (Suc (Suc n)) \<longleftrightarrow> 3 dvd n"
  by presburger

theorem base64_roundtrip_iff_witness:
  "lua_base64_decode (lua_base64_encode ''a.b'') = ''a.b'' \<and>
   lua_base64_decode (lua_base64_encode ''user'') \<noteq> ''user''"
proof -
  have "utf8_valid (as_bytes ''a.b'')" and "utf8_valid (as_bytes ''user'')"
    by (rule utf8_valid_ascii; auto simp: as_bytes_def)+
  then show ?thesis
    using base64_roundtrip_iff [of "''a.b''"] base64_roundtrip_iff [of "''user''"]
    by (simp add: three_dvd)
qed

text \<open>
  C34. The decoder on any input, after any number of well-formed blocks: a block with a padding
  sign ends the decoding and everything after it is ignored, a block with a foreign character
  (and no padding sign) fails the whole call, and fewer than four trailing characters are
  ignored. A result never has more than three bytes for each four characters.
\<close>

theorem base64_decode_blocks:
  assumes "set xs \<subseteq> set CHARS" and "length xs = 4 * k"
  shows "(of_char CHR ''='' \<in> {c0, c1, c2, c3} \<longrightarrow>
            base64_decode (of_bytes (xs @ [c0, c1, c2, c3] @ rest)) = base64_decode (of_bytes xs)) \<and>
         (of_char CHR ''='' \<notin> {c0, c1, c2, c3} \<and> \<not> {c0, c1, c2, c3} \<subseteq> set CHARS \<longrightarrow>
            base64_decode (of_bytes (xs @ [c0, c1, c2, c3] @ rest)) = None) \<and>
         (length rest < 4 \<longrightarrow> base64_decode (of_bytes (xs @ rest)) = base64_decode (of_bytes xs)) \<and>
         (base64_decode s = Some t \<longrightarrow> length t \<le> 3 * (length s div 4))"
proof -
  obtain ds where pre: "\<And>zs. decode_loop (xs @ zs) [] = decode_loop zs ds"
    using decode_loop_prefix [OF assms, of "[]"] by auto
  have xs: "decode_loop xs [] = Some ds"
    using pre [of "[]"] by simp
  have "length t \<le> 3 * (length s div 4)" if "base64_decode s = Some t"
    using that decode_loop_length [of "as_bytes s" "[]"]
    by (auto simp: base64_decode_def from_utf8_def split: option.splits if_splits)
  then show ?thesis
    using decode_loop_stop [of c0 c1 c2 c3 rest ds] decode_loop_reject [of c0 c1 c2 c3 rest ds]
      decode_loop_short [of rest ds]
    by (simp add: base64_decode_def pre xs del: decode_loop.simps)
qed

theorem base64_decode_blocks_witness:
  "base64_decode ''TWFuTQ==TWFu'' = base64_decode ''TWFu'' \<and> base64_decode ''TWFuTW-uTWFu'' = None \<and>
   base64_decode ''TWFuTWF'' = base64_decode ''TWFu''"
proof -
  let ?xs = "as_bytes ''TWFu''"
  have xs: "set ?xs \<subseteq> set CHARS" "length ?xs = 4 * 1"
    by (simp_all add: as_bytes_def CHARS_def)
  have foreign: "of_char CHR ''-'' \<notin> set CHARS" by (simp add: as_bytes_def CHARS_def)
  have e1: "?xs @ [of_char CHR ''T'', of_char CHR ''Q'', of_char CHR ''='', of_char CHR ''=''] @ ?xs
      = as_bytes ''TWFuTQ==TWFu''"
    and e2: "?xs @ [of_char CHR ''T'', of_char CHR ''W'', of_char CHR ''-'', of_char CHR ''u''] @ ?xs
      = as_bytes ''TWFuTW-uTWFu''"
    and e3: "?xs @ as_bytes ''TWF'' = as_bytes ''TWFuTWF''"
    by (simp_all add: as_bytes_def)
  have "base64_decode ''TWFuTQ==TWFu'' = base64_decode ''TWFu''"
    using base64_decode_blocks [OF xs, of "of_char CHR ''T''" "of_char CHR ''Q''"
        "of_char CHR ''=''" "of_char CHR ''=''" ?xs] unfolding e1 by simp
  moreover have "base64_decode ''TWFuTW-uTWFu'' = None"
    using base64_decode_blocks [OF xs, of "of_char CHR ''T''" "of_char CHR ''W''"
        "of_char CHR ''-''" "of_char CHR ''u''" ?xs] foreign unfolding e2 by simp
  moreover have "base64_decode ''TWFuTWF'' = base64_decode ''TWFu''"
    using base64_decode_blocks [OF xs, of _ _ _ _ "as_bytes ''TWF''"] unfolding e3 by simp
  ultimately show ?thesis by blast
qed

end
