(* ===== verification/Context.thy ===== *)
theory Context
  imports Prelude
begin

section \<open>The request context (src/lua/context.rs)\<close>

text \<open>
  \<open>RequestCtx\<close>, the state the handler shares with the Lua hooks, the methods of the \<open>LuaCtx\<close>
  user data and the tables its fields \<open>req\<close>, \<open>res\<close> and \<open>vars\<close> build. A hook can touch the
  context only through these methods, so a run of a hook is a sequence of \<open>ctx_call\<close>s, and what
  every method keeps every hook keeps: the locale \<open>ctx_invariant\<close> states that once for a whole
  family of facts. \<open>uni\<close> is the Unicode part of \<open>str::to_lowercase\<close>.
\<close>

record request_ctx =
  req_method :: string
  req_path :: string
  req_headers :: "(string, string) hashmap"
  req_body :: string
  client_ip :: string
  res_status :: u16
  res_headers :: "(string, string) hashmap"
  res_body :: string
  vars :: "(string, string) hashmap"
  rejected :: "(u16 \<times> string) option"

definition RequestCtx_new ::
    "string \<Rightarrow> string \<Rightarrow> (string, string) hashmap \<Rightarrow> string \<Rightarrow> string \<Rightarrow> request_ctx" where
  "RequestCtx_new method path headers body ip =
     \<lparr>req_method = method, req_path = path, req_headers = headers, req_body = body,
      client_ip = ip, res_status = 200, res_headers = hm_new, res_body = [], vars = hm_new,
      rejected = None\<rparr>"

definition is_rejected :: "request_ctx \<Rightarrow> bool" where
  "is_rejected c = (rejected c \<noteq> None)"

subsection \<open>The methods of \<open>LuaCtx\<close>\<close>

definition ctx_reject :: "u16 \<Rightarrow> string \<Rightarrow> request_ctx \<Rightarrow> request_ctx" where
  "ctx_reject status msg c = c\<lparr>rejected := Some (status, msg)\<rparr>"

definition ctx_set_var :: "string \<Rightarrow> string \<Rightarrow> request_ctx \<Rightarrow> request_ctx" where
  "ctx_set_var k v c = c\<lparr>vars := hm_insert k v (vars c)\<rparr>"

definition ctx_get_var :: "string \<Rightarrow> request_ctx \<Rightarrow> string option" where
  "ctx_get_var k c = hm_get (vars c) k"

definition ctx_set_req_header ::
    "(string \<Rightarrow> string) \<Rightarrow> string \<Rightarrow> string \<Rightarrow> request_ctx \<Rightarrow> request_ctx" where
  "ctx_set_req_header uni k v c =
     c\<lparr>req_headers := hm_insert (to_lowercase uni k) v (req_headers c)\<rparr>"

definition ctx_set_res_header ::
    "(string \<Rightarrow> string) \<Rightarrow> string \<Rightarrow> string \<Rightarrow> request_ctx \<Rightarrow> request_ctx" where
  "ctx_set_res_header uni k v c =
     c\<lparr>res_headers := hm_insert (to_lowercase uni k) v (res_headers c)\<rparr>"

definition ctx_set_res_status :: "u16 \<Rightarrow> request_ctx \<Rightarrow> request_ctx" where
  "ctx_set_res_status status c = c\<lparr>res_status := status\<rparr>"

definition ctx_get_req_header ::
    "(string \<Rightarrow> string) \<Rightarrow> string \<Rightarrow> request_ctx \<Rightarrow> string option" where
  "ctx_get_req_header uni k c = hm_get (req_headers c) (to_lowercase uni k)"

definition upstream_var :: string where
  "upstream_var = ''__upstream__''"

definition ctx_upstream :: "string \<Rightarrow> request_ctx \<Rightarrow> request_ctx" where
  "ctx_upstream name c = c\<lparr>vars := hm_insert upstream_var name (vars c)\<rparr>"

text \<open>The calls that change the context, and their effect.\<close>

datatype ctx_call =
    Reject u16 string
  | Set_Var string string
  | Set_Req_Header string string
  | Set_Res_Header string string
  | Set_Res_Status u16
  | Upstream string

fun apply_call :: "(string \<Rightarrow> string) \<Rightarrow> ctx_call \<Rightarrow> request_ctx \<Rightarrow> request_ctx" where
  "apply_call uni (Reject status msg) c = ctx_reject status msg c"
| "apply_call uni (Set_Var k v) c = ctx_set_var k v c"
| "apply_call uni (Set_Req_Header k v) c = ctx_set_req_header uni k v c"
| "apply_call uni (Set_Res_Header k v) c = ctx_set_res_header uni k v c"
| "apply_call uni (Set_Res_Status status) c = ctx_set_res_status status c"
| "apply_call uni (Upstream name) c = ctx_upstream name c"

definition apply_calls :: "(string \<Rightarrow> string) \<Rightarrow> ctx_call list \<Rightarrow> request_ctx \<Rightarrow> request_ctx" where
  "apply_calls uni calls c = fold (apply_call uni) calls c"

subsection \<open>The tables of \<open>ctx.req\<close>, \<open>ctx.res\<close> and \<open>ctx.vars\<close>\<close>

record req_table =
  t_method :: string
  t_path :: string
  t_body :: string
  t_ip :: string
  t_headers :: "(string, string) hashmap"

record res_table =
  t_status :: u16
  t_res_body :: string
  t_res_headers :: "(string, string) hashmap"

definition lower_table ::
    "(string \<Rightarrow> string) \<Rightarrow> (string, string) hashmap \<Rightarrow> (string, string) hashmap" where
  "lower_table uni m = fold (\<lambda>e. hm_insert (to_lowercase uni (fst e)) (snd e)) m hm_new"

definition ctx_req :: "(string \<Rightarrow> string) \<Rightarrow> request_ctx \<Rightarrow> req_table" where
  "ctx_req uni c =
     \<lparr>t_method = req_method c, t_path = req_path c, t_body = req_body c, t_ip = client_ip c,
      t_headers = lower_table uni (req_headers c)\<rparr>"

definition ctx_res :: "(string \<Rightarrow> string) \<Rightarrow> request_ctx \<Rightarrow> res_table" where
  "ctx_res uni c =
     \<lparr>t_status = res_status c, t_res_body = res_body c,
      t_res_headers = lower_table uni (res_headers c)\<rparr>"

definition ctx_vars :: "request_ctx \<Rightarrow> (string, string) hashmap" where
  "ctx_vars c = fold (\<lambda>e. hm_insert (fst e) (snd e)) (vars c) hm_new"

lemmas ctx_method_defs =
  ctx_reject_def ctx_set_var_def ctx_set_req_header_def ctx_set_res_header_def
  ctx_set_res_status_def ctx_upstream_def


subsection \<open>What every method keeps\<close>

text \<open>An invariant of the context that every method of \<open>LuaCtx\<close> preserves.\<close>

locale ctx_invariant =
  fixes uni :: "string \<Rightarrow> string"
    and inv :: "request_ctx \<Rightarrow> bool"
  assumes inv_call: "inv c \<Longrightarrow> inv (apply_call uni call c)"
begin

lemma inv_calls: "inv c \<Longrightarrow> inv (apply_calls uni calls c)"
  unfolding apply_calls_def by (induction calls arbitrary: c) (auto intro: inv_call)

end

text \<open>A part of the context that no method changes.\<close>

locale ctx_frame =
  fixes uni :: "string \<Rightarrow> string"
    and part :: "request_ctx \<Rightarrow> 'a"
  assumes part_call: "part (apply_call uni call c) = part c"
begin

lemma part_calls: "part (apply_calls uni calls c) = part c"
  unfolding apply_calls_def by (induction calls arbitrary: c) (auto simp: part_call)

end

sublocale ctx_frame \<subseteq> kept: ctx_invariant uni "\<lambda>c. part c = v" for v
  by unfold_locales (simp add: part_call)

text \<open>The request line, the request body, the client address and the response body are fixed.\<close>

definition fixed_part :: "request_ctx \<Rightarrow> string \<times> string \<times> string \<times> string \<times> string" where
  "fixed_part c = (req_method c, req_path c, req_body c, client_ip c, res_body c)"

interpretation fixed: ctx_frame uni fixed_part for uni
proof
  show "fixed_part (apply_call uni call c) = fixed_part c" for call c
    by (cases call) (simp_all add: fixed_part_def ctx_method_defs)
qed

text \<open>A rejection is never withdrawn.\<close>

interpretation rej: ctx_invariant uni is_rejected for uni
proof
  show "is_rejected c \<Longrightarrow> is_rejected (apply_call uni call c)" for call c
    by (cases call) (simp_all add: is_rejected_def ctx_method_defs)
qed

text \<open>Header names are kept in lower case, each once.\<close>

definition lower_idem :: "(string \<Rightarrow> string) \<Rightarrow> bool" where
  "lower_idem uni = (\<forall>s. to_lowercase uni (to_lowercase uni s) = to_lowercase uni s)"

definition headers_ok :: "(string \<Rightarrow> string) \<Rightarrow> (string, string) hashmap \<Rightarrow> bool" where
  "headers_ok uni m = (hm_wf m \<and> list_all (\<lambda>e. to_lowercase uni (fst e) = fst e) m)"

definition ctx_wf :: "(string \<Rightarrow> string) \<Rightarrow> request_ctx \<Rightarrow> bool" where
  "ctx_wf uni c = (lower_idem uni \<longrightarrow>
     headers_ok uni (req_headers c) \<and> headers_ok uni (res_headers c) \<and> hm_wf (vars c))"

lemma headers_ok_new [simp]: "headers_ok uni hm_new"
  by (simp add: headers_ok_def hm.wf_new) (simp add: hm_new_def)

lemma headers_ok_insert:
  "headers_ok uni m \<Longrightarrow> to_lowercase uni k = k \<Longrightarrow> headers_ok uni (hm_insert k v m)"
  unfolding headers_ok_def list_all_iff by (auto intro: hm.wf_put dest!: hm_insert_mem)

interpretation wf: ctx_invariant uni "ctx_wf uni" for uni
proof
  show "ctx_wf uni c \<Longrightarrow> ctx_wf uni (apply_call uni call c)" for call c
    by (cases call)
      (auto simp: ctx_wf_def ctx_method_defs lower_idem_def intro!: headers_ok_insert hm.wf_put)
qed

lemma copy_table_get:
  assumes wf: "hm_wf m"
  shows "hm_get (fold (\<lambda>e. hm_insert (fst e) (snd e)) m hm_new) k = hm_get m k"
proof (cases "hm_get m k")
  case None
  then have "k \<notin> fst ` set m" using hm_get_keys [of m k] by (simp add: hm_keys_def)
  then have "hm_get (fold (\<lambda>e. hm_insert (fst e) (snd e)) m hm_new) k = hm_get hm_new k"
    by (rule hm.look_put_all_absent)
  then show ?thesis by (simp add: None hm.look_new)
next
  case (Some v)
  then have "(k, v) \<in> set m" using hm.entries_look [OF wf, of k v] by simp
  moreover have "distinct (map fst m)" using wf by (simp add: hm_wf_def)
  ultimately have
    "hm_get (fold (\<lambda>e. hm_insert (fst e) (snd e)) m hm_new) (fst (k, v)) = Some (snd (k, v))"
    by (intro hm.look_put_all_distinct)
  then show ?thesis by (simp add: Some)
qed

lemma lower_table_get:
  assumes "headers_ok uni m"
  shows "hm_get (lower_table uni m) k = hm_get m k"
proof -
  have low: "\<And>e. e \<in> set m \<Longrightarrow> to_lowercase uni (fst e) = fst e" and wf: "hm_wf m"
    using assms by (auto simp: headers_ok_def list_all_iff)
  have eq: "lower_table uni m = fold (\<lambda>e. hm_insert (fst e) (snd e)) m hm_new"
    unfolding lower_table_def by (rule fold_cong) (simp_all only: low)
  show ?thesis unfolding eq using wf by (rule copy_table_get)
qed

text \<open>The last rejection is the one that counts.\<close>

definition last_reject :: "ctx_call list \<Rightarrow> (u16 \<times> string) option \<Rightarrow> (u16 \<times> string) option" where
  "last_reject calls r =
     fold (\<lambda>call r. case call of Reject s m \<Rightarrow> Some (s, m) | _ \<Rightarrow> r) calls r"

lemma rejected_apply_calls: "rejected (apply_calls uni calls c) = last_reject calls (rejected c)"
  unfolding apply_calls_def last_reject_def
proof (induction calls arbitrary: c)
  case (Cons call calls)
  then show ?case by (cases call) (simp_all add: ctx_method_defs)
qed simp

subsection \<open>Properties\<close>

text \<open>
  C23. Whatever methods a plugin calls, in whatever order: the method, path, body and client
  address of the request and the body of the response stay as they were, a rejection is never
  withdrawn, and of several rejections the last one decides status and message.
\<close>

theorem ctx_calls_protect:
  "(req_method (apply_calls uni calls c) = req_method c \<and> req_path (apply_calls uni calls c) = req_path c \<and>
    req_body (apply_calls uni calls c) = req_body c \<and> client_ip (apply_calls uni calls c) = client_ip c \<and>
    res_body (apply_calls uni calls c) = res_body c) \<and>
   (if is_rejected c then is_rejected (apply_calls uni calls c) else True) \<and>
   rejected (apply_calls uni calls c) = last_reject calls (rejected c)"
  using fixed.part_calls [of uni calls c] rej.inv_calls [of c uni calls]
  by (simp add: fixed_part_def rejected_apply_calls)

text \<open>
  C24. Reading headers and variables back: after any calls on a fresh context, \<open>ctx.req.headers\<close>,
  \<open>ctx.res.headers\<close> and \<open>ctx.vars\<close> show exactly the stored entries, \<open>get_req_header\<close> finds
  what \<open>ctx.req.headers\<close> shows under the lower-case name, and a header that is set is found
  under every spelling of its name.
\<close>

theorem ctx_tables_agree:
  assumes "lower_idem uni" and "headers_ok uni h"
    and "c = apply_calls uni calls (RequestCtx_new m p h b ip)"
  shows "hm_get (t_headers (ctx_req uni c)) k = hm_get (req_headers c) k \<and>
         hm_get (t_res_headers (ctx_res uni c)) k = hm_get (res_headers c) k \<and>
         hm_get (ctx_vars c) k = ctx_get_var k c \<and>
         ctx_get_req_header uni k c = hm_get (t_headers (ctx_req uni c)) (to_lowercase uni k) \<and>
         (to_lowercase uni k = to_lowercase uni k' \<longrightarrow>
            ctx_get_req_header uni k (ctx_set_req_header uni k' v c) = Some v)"
proof -
  have "ctx_wf uni (RequestCtx_new m p h b ip)"
    using assms by (simp add: ctx_wf_def RequestCtx_new_def hm.wf_new)
  then have "ctx_wf uni c" using assms wf.inv_calls by blast
  with assms(1) have req: "headers_ok uni (req_headers c)" and res: "headers_ok uni (res_headers c)"
    and vars: "hm_wf (vars c)" by (simp_all add: ctx_wf_def)
  have "hm_get (ctx_vars c) k = hm_get (vars c) k" for k
    unfolding ctx_vars_def using vars by (rule copy_table_get)
  then show ?thesis
    using lower_table_get [OF req] lower_table_get [OF res]
    by (simp add: ctx_req_def ctx_res_def ctx_get_var_def ctx_get_req_header_def
        ctx_set_req_header_def store_simps)
qed

theorem ctx_tables_agree_witness:
  "\<exists>c. ctx_get_req_header (\<lambda>s. s) ''X-User-Id'' (ctx_set_req_header (\<lambda>s. s) ''x-user-id'' ''42'' c) = Some ''42''"
proof -
  let ?uni = "\<lambda>s. s :: string"
  have idem: "lower_idem ?uni"
    unfolding lower_idem_def using to_lowercase_ascii_idem by (metis to_lowercase_def)
  have low: "to_lowercase ?uni ''X-User-Id'' = to_lowercase ?uni ''x-user-id''"
    by code_simp
  show ?thesis
    using ctx_tables_agree [OF idem headers_ok_new refl, where k = "''X-User-Id''" and k' = "''x-user-id''"
        and v = "''42''"] low by blast
qed

end
