(* ===== verification/Config.thy ===== *)
theory Config
  imports Prelude
begin

section \<open>Configuration (src/config.rs)\<close>

text \<open>
  The configuration records with their serde defaults. The TOML text is parsed by the \<open>toml\<close>
  crate into a document in which every field the sources mark with \<open>serde(default)\<close> may be
  absent; \<open>Config_load\<close> reads the file, lets the parser produce that document and fills in the
  defaults.
\<close>

record listener_config =
  lc_addr :: string
  lc_http_addr :: string
  lc_workers :: usize

record tls_config =
  tc_cert :: string
  tc_key :: string

record admin_config =
  ac_addr :: string

record plugins_config =
  pc_dir :: string
  pc_pipeline :: "string list"

record upstream_config =
  uc_name :: string
  uc_targets :: "string list"
  uc_lb :: string
  uc_health_check_path :: string
  uc_health_check_interval :: u64

record config =
  c_listener :: listener_config
  c_tls :: tls_config
  c_admin :: admin_config
  c_plugins :: plugins_config
  c_upstream :: "upstream_config list"

definition default_workers :: usize where
  "default_workers = 0"

definition default_lb :: string where
  "default_lb = ''round_robin''"

definition default_health_path :: string where
  "default_health_path = ''/health''"

definition default_health_interval :: u64 where
  "default_health_interval = 5"

text \<open>The parsed document: fields with a default are options.\<close>

record raw_listener =
  raw_addr :: string
  raw_http_addr :: string
  raw_workers :: "usize option"

record raw_upstream =
  raw_name :: string
  raw_targets :: "string list"
  raw_lb :: "string option"
  raw_health_path :: "string option"
  raw_health_interval :: "u64 option"

record raw_config =
  raw_listener :: raw_listener
  raw_tls :: tls_config
  raw_admin :: admin_config
  raw_plugins :: plugins_config
  raw_upstreams :: "raw_upstream list"

text \<open>\<open>serde(default = ...)\<close>.\<close>

definition or_default :: "'a \<Rightarrow> 'a option \<Rightarrow> 'a" where
  "or_default d x = (case x of Some v \<Rightarrow> v | None \<Rightarrow> d)"

definition fill_listener :: "raw_listener \<Rightarrow> listener_config" where
  "fill_listener r =
     \<lparr>lc_addr = raw_addr r, lc_http_addr = raw_http_addr r,
      lc_workers = or_default default_workers (raw_workers r)\<rparr>"

definition fill_upstream :: "raw_upstream \<Rightarrow> upstream_config" where
  "fill_upstream r =
     \<lparr>uc_name = raw_name r, uc_targets = raw_targets r,
      uc_lb = or_default default_lb (raw_lb r),
      uc_health_check_path = or_default default_health_path (raw_health_path r),
      uc_health_check_interval = or_default default_health_interval (raw_health_interval r)\<rparr>"

definition fill_config :: "raw_config \<Rightarrow> config" where
  "fill_config r =
     \<lparr>c_listener = fill_listener (raw_listener r), c_tls = raw_tls r, c_admin = raw_admin r,
      c_plugins = raw_plugins r, c_upstream = map fill_upstream (raw_upstreams r)\<rparr>"

datatype config_error = Read_Error | Parse_Error

text \<open>
  \<open>read_file\<close> stands for the file system (\<open>None\<close>: the read fails), \<open>parse\<close> for the \<open>toml\<close>
  crate.
\<close>

definition Config_load ::
    "(string \<Rightarrow> string option) \<Rightarrow> (string \<Rightarrow> raw_config option) \<Rightarrow> string \<Rightarrow> config_error + config" where
  "Config_load read_file parse path =
     (case read_file path of
        None \<Rightarrow> Inl Read_Error
      | Some s \<Rightarrow> (case parse s of None \<Rightarrow> Inl Parse_Error | Some r \<Rightarrow> Inr (fill_config r)))"

lemma Config_load_Inr:
  "Config_load read_file parse path = Inr c \<longleftrightarrow>
     (\<exists>s r. read_file path = Some s \<and> parse s = Some r \<and> c = fill_config r)"
  by (auto simp: Config_load_def split: option.splits)

lemma fill_upstream_simps [simp]:
  "uc_name (fill_upstream r) = raw_name r"
  "uc_targets (fill_upstream r) = raw_targets r"
  "uc_lb (fill_upstream r) = or_default default_lb (raw_lb r)"
  "uc_health_check_path (fill_upstream r) = or_default default_health_path (raw_health_path r)"
  "uc_health_check_interval (fill_upstream r) = or_default default_health_interval (raw_health_interval r)"
  by (simp_all add: fill_upstream_def)

lemma fill_config_simps [simp]:
  "c_listener (fill_config r) = fill_listener (raw_listener r)"
  "c_tls (fill_config r) = raw_tls r"
  "c_plugins (fill_config r) = raw_plugins r"
  "c_upstream (fill_config r) = map fill_upstream (raw_upstreams r)"
  by (simp_all add: fill_config_def)

lemma or_default_simps [simp]: "or_default d None = d" "or_default d (Some v) = v"
  by (simp_all add: or_default_def)

end
