(* ===== verification/Engine.thy ===== *)
theory Engine
  imports Context Config
begin

section \<open>The plugin engine (src/lua/engine.rs)\<close>

text \<open>
  \<open>PluginSources\<close> and its loading, the globals the engine registers, and the four hook loops
  of \<open>LuaEngine\<close>. The Lua virtual machine (the \<open>mlua\<close> crate) is the parameter \<open>vm\<close>, a record
  of the operations the source calls: running a chunk, looking up a global function and calling
  it. Its state is the Lua state of one connection, which lives as long as the connection. What
  Lua code can do to the request context is the sequence of \<open>LuaCtx\<close> method calls the virtual
  machine reports; their effect is the model's own \<open>apply_calls\<close>.
\<close>

subsection \<open>Plugin sources\<close>

record plugin_sources =
  ps_pipeline :: "string list"
  ps_sources :: "(string, string) hashmap"

text \<open>\<open>PathBuf::from(dir).join(name)\<close>: an absolute name replaces the directory.\<close>

definition path_join :: "string \<Rightarrow> string \<Rightarrow> string" where
  "path_join d n =
     (if n \<noteq> [] \<and> hd n = CHR ''/'' then n
      else if d = [] \<or> last d = CHR ''/'' then d @ n
      else d @ ''/'' @ n)"

text \<open>\<open>read_file\<close> is \<open>std::fs::read_to_string\<close> at the time of the load.\<close>

definition PluginSources_load ::
    "(string \<Rightarrow> string option) \<Rightarrow> plugins_config \<Rightarrow> string + plugin_sources" where
  "PluginSources_load read_file cfg =
     Inr \<lparr>ps_pipeline = pc_pipeline cfg,
          ps_sources =
            fold (\<lambda>n sources. case read_file (path_join (pc_dir cfg) n) of
                                Some src \<Rightarrow> hm_insert n src sources
                              | None \<Rightarrow> sources)
              (pc_pipeline cfg) hm_new\<rparr>"

subsection \<open>The globals of a virtual machine\<close>

datatype builtin =
  Json_Encode | Log_Info | Log_Warn | Base64_Encode | Base64_Decode | Hmac_Sha256 | Uuid_V4

record lua_globals =
  g_tables :: "(string \<times> (string \<times> builtin) list) list"
  g_env :: "(string \<times> string) list"

definition setup_globals :: "(string \<times> string) list \<Rightarrow> lua_globals" where
  "setup_globals env_vars =
     \<lparr>g_tables =
        [(''json'', [(''encode'', Json_Encode)]),
         (''log'', [(''info'', Log_Info), (''warn'', Log_Warn)]),
         (''base64'', [(''encode'', Base64_Encode), (''decode'', Base64_Decode)]),
         (''hmac'', [(''sha256'', Hmac_Sha256)]),
         (''uuid'', [(''v4'', Uuid_V4)])],
      g_env = env_vars\<rparr>"

definition global_function :: "lua_globals \<Rightarrow> string \<Rightarrow> string \<Rightarrow> builtin option" where
  "global_function g tbl f = Option.bind (map_of (g_tables g) tbl) (\<lambda>fs. map_of fs f)"

subsection \<open>The virtual machine and the hooks\<close>

text \<open>What a call of a Lua function gives back, as far as the source distinguishes it.\<close>

datatype lua_ret = Call_Err | Ret_Nil | Ret_String string | Ret_Other

datatype lua_error = Lua_Error string

record ('g, 'f) lua_vm =
  vm_init :: "lua_globals \<Rightarrow> 'g option"
  vm_exec :: "string \<Rightarrow> string \<Rightarrow> request_ctx \<Rightarrow> 'g \<Rightarrow> 'g \<times> ctx_call list \<times> bool"
  vm_global :: "'g \<Rightarrow> string \<Rightarrow> 'f option"
  vm_call :: "'f \<Rightarrow> request_ctx \<Rightarrow> 'g \<Rightarrow> 'g \<times> ctx_call list \<times> lua_ret"

type_synonym 'g engine_state = "'g \<times> request_ctx"

definition LuaEngine_new :: "('g, 'f) lua_vm \<Rightarrow> (string \<times> string) list \<Rightarrow> 'g option" where
  "LuaEngine_new vm env_vars = vm_init vm (setup_globals env_vars)"

definition load_plugin ::
    "(string \<Rightarrow> string) \<Rightarrow> ('g, 'f) lua_vm \<Rightarrow> string \<Rightarrow> string \<Rightarrow> 'g engine_state \<Rightarrow>
      'g engine_state \<times> bool" where
  "load_plugin uni vm n src s =
     (case vm_exec vm n src (snd s) (fst s) of
        (g, calls, ok) \<Rightarrow> ((g, apply_calls uni calls (snd s)), ok))"

definition call_hook ::
    "(string \<Rightarrow> string) \<Rightarrow> ('g, 'f) lua_vm \<Rightarrow> 'f \<Rightarrow> 'g engine_state \<Rightarrow> 'g engine_state \<times> lua_ret" where
  "call_hook uni vm f s =
     (case vm_call vm f (snd s) (fst s) of
        (g, calls, r) \<Rightarrow> ((g, apply_calls uni calls (snd s)), r))"

text \<open>
  The part the four loops share: look the source up, load the plugin, look the hook up among
  the globals. \<open>None\<close>: there is nothing to call for this plugin.
\<close>

definition plugin_hook ::
    "(string \<Rightarrow> string) \<Rightarrow> ('g, 'f) lua_vm \<Rightarrow> plugin_sources \<Rightarrow> string \<Rightarrow> string \<Rightarrow>
      'g engine_state \<Rightarrow> 'g engine_state \<times> 'f option" where
  "plugin_hook uni vm srcs hook n s =
     (case hm_get (ps_sources srcs) n of
        None \<Rightarrow> (s, None)
      | Some src \<Rightarrow>
          (case load_plugin uni vm n src s of
             (s', ok) \<Rightarrow> if ok then (s', vm_global vm (fst s') hook) else (s', None)))"

text \<open>\<open>on_request\<close>: the flag says that the loop is left because the request is rejected.\<close>

definition request_plugin ::
    "(string \<Rightarrow> string) \<Rightarrow> ('g, 'f) lua_vm \<Rightarrow> plugin_sources \<Rightarrow> string \<Rightarrow> 'g engine_state \<Rightarrow>
      'g engine_state \<times> bool" where
  "request_plugin uni vm srcs n s =
     (case plugin_hook uni vm srcs ''on_request'' n s of
        (s1, None) \<Rightarrow> (s1, False)
      | (s1, Some f) \<Rightarrow> (case call_hook uni vm f s1 of (s2, _) \<Rightarrow> (s2, is_rejected (snd s2))))"

fun request_loop ::
    "(string \<Rightarrow> string) \<Rightarrow> ('g, 'f) lua_vm \<Rightarrow> plugin_sources \<Rightarrow> string list \<Rightarrow> 'g engine_state \<Rightarrow>
      'g engine_state" where
  "request_loop uni vm srcs [] s = s"
| "request_loop uni vm srcs (n # ns) s =
     (case request_plugin uni vm srcs n s of
        (s', halt) \<Rightarrow> if halt then s' else request_loop uni vm srcs ns s')"

definition run_on_request ::
    "(string \<Rightarrow> string) \<Rightarrow> ('g, 'f) lua_vm \<Rightarrow> plugin_sources \<Rightarrow> 'g engine_state \<Rightarrow>
      'g engine_state \<times> (lua_error + unit)" where
  "run_on_request uni vm srcs s = (request_loop uni vm srcs (ps_pipeline srcs) s, Inr ())"

text \<open>\<open>on_route\<close>: the first hook that returns a string decides.\<close>

definition route_plugin ::
    "(string \<Rightarrow> string) \<Rightarrow> ('g, 'f) lua_vm \<Rightarrow> plugin_sources \<Rightarrow> string \<Rightarrow> 'g engine_state \<Rightarrow>
      'g engine_state \<times> string option" where
  "route_plugin uni vm srcs n s =
     (case plugin_hook uni vm srcs ''on_route'' n s of
        (s1, None) \<Rightarrow> (s1, None)
      | (s1, Some f) \<Rightarrow>
          (case call_hook uni vm f s1 of
             (s2, r) \<Rightarrow> (s2, case r of Ret_String u \<Rightarrow> Some u | _ \<Rightarrow> None)))"

fun route_loop ::
    "(string \<Rightarrow> string) \<Rightarrow> ('g, 'f) lua_vm \<Rightarrow> plugin_sources \<Rightarrow> string list \<Rightarrow> 'g engine_state \<Rightarrow>
      'g engine_state \<times> string option" where
  "route_loop uni vm srcs [] s = (s, hm_get (vars (snd s)) upstream_var)"
| "route_loop uni vm srcs (n # ns) s =
     (case route_plugin uni vm srcs n s of
        (s', Some u) \<Rightarrow> (s', Some u)
      | (s', None) \<Rightarrow> route_loop uni vm srcs ns s')"

definition run_on_route ::
    "(string \<Rightarrow> string) \<Rightarrow> ('g, 'f) lua_vm \<Rightarrow> plugin_sources \<Rightarrow> 'g engine_state \<Rightarrow>
      'g engine_state \<times> (lua_error + string option)" where
  "run_on_route uni vm srcs s =
     (case route_loop uni vm srcs (ps_pipeline srcs) s of (s', u) \<Rightarrow> (s', Inr u))"

text \<open>\<open>on_transform\<close> and \<open>on_response\<close>: every plugin gets its turn.\<close>

definition transform_plugin ::
    "(string \<Rightarrow> string) \<Rightarrow> ('g, 'f) lua_vm \<Rightarrow> plugin_sources \<Rightarrow> string \<Rightarrow> 'g engine_state \<Rightarrow>
      'g engine_state" where
  "transform_plugin uni vm srcs n s =
     (case plugin_hook uni vm srcs ''on_transform'' n s of
        (s1, None) \<Rightarrow> s1
      | (s1, Some f) \<Rightarrow> fst (call_hook uni vm f s1))"

definition run_on_transform ::
    "(string \<Rightarrow> string) \<Rightarrow> ('g, 'f) lua_vm \<Rightarrow> plugin_sources \<Rightarrow> 'g engine_state \<Rightarrow>
      'g engine_state \<times> (lua_error + unit)" where
  "run_on_transform uni vm srcs s =
     (fold (transform_plugin uni vm srcs) (ps_pipeline srcs) s, Inr ())"

definition response_plugin ::
    "(string \<Rightarrow> string) \<Rightarrow> ('g, 'f) lua_vm \<Rightarrow> plugin_sources \<Rightarrow> string \<Rightarrow> 'g engine_state \<Rightarrow>
      'g engine_state" where
  "response_plugin uni vm srcs n s =
     (case plugin_hook uni vm srcs ''on_response'' n s of
        (s1, None) \<Rightarrow> s1
      | (s1, Some f) \<Rightarrow> fst (call_hook uni vm f s1))"

definition run_on_response ::
    "(string \<Rightarrow> string) \<Rightarrow> ('g, 'f) lua_vm \<Rightarrow> plugin_sources \<Rightarrow> 'g engine_state \<Rightarrow>
      'g engine_state \<times> (lua_error + unit)" where
  "run_on_response uni vm srcs s =
     (fold (response_plugin uni vm srcs) (ps_pipeline srcs) s, Inr ())"

subsection \<open>Loading\<close>

definition load_step :: "(string \<Rightarrow> string option) \<Rightarrow> string \<Rightarrow> string \<Rightarrow>
    (string, string) hashmap \<Rightarrow> (string, string) hashmap" where
  "load_step read_file d n sources =
     (case read_file (path_join d n) of Some src \<Rightarrow> hm_insert n src sources | None \<Rightarrow> sources)"

lemma load_step_get:
  "hm_get (fold (load_step read_file d) ns m) n =
     (if n \<in> set ns \<and> read_file (path_join d n) \<noteq> None then read_file (path_join d n) else hm_get m n)"
  by (induction ns arbitrary: m) (auto simp: load_step_def store_simps split: option.splits)

lemma PluginSources_load_sources:
  assumes "PluginSources_load read_file cfg = Inr ps"
  shows "ps_pipeline ps = pc_pipeline cfg"
    and "hm_get (ps_sources ps) n =
      (if n \<in> set (pc_pipeline cfg) then read_file (path_join (pc_dir cfg) n) else None)"
  using assms load_step_get [of read_file "pc_dir cfg" "pc_pipeline cfg" hm_new n]
  by (auto simp: PluginSources_load_def store_simps load_step_def [abs_def])

lemma PluginSources_load_total: "\<exists>ps. PluginSources_load read_file cfg = Inr ps"
  by (simp add: PluginSources_load_def)

subsection \<open>What every hook run keeps\<close>

context ctx_invariant
begin

lemma inv_plugin_hook: "inv (snd s) \<Longrightarrow> inv (snd (fst (plugin_hook uni vm srcs hook n s)))"
  by (auto simp: plugin_hook_def load_plugin_def inv_calls split: option.splits prod.splits)

lemma inv_call_hook: "inv (snd s) \<Longrightarrow> inv (snd (fst (call_hook uni vm f s)))"
  by (auto simp: call_hook_def inv_calls split: prod.splits)

lemma inv_call_hookD: "call_hook uni vm f s = (s', r) \<Longrightarrow> inv (snd s) \<Longrightarrow> inv (snd s')"
  using inv_call_hook [of s vm f] by simp

lemma inv_request_plugin: "inv (snd s) \<Longrightarrow> inv (snd (fst (request_plugin uni vm srcs n s)))"
  using inv_plugin_hook [of s vm srcs "''on_request''" n]
  by (auto simp: request_plugin_def split: prod.splits option.splits dest: inv_call_hookD)

lemma inv_request_loop: "inv (snd s) \<Longrightarrow> inv (snd (request_loop uni vm srcs ns s))"
proof (induction ns arbitrary: s)
  case (Cons n ns)
  then show ?case
    using inv_request_plugin [of s vm srcs n] by (auto split: prod.splits)
qed simp

lemma inv_run_on_request: "inv (snd s) \<Longrightarrow> inv (snd (fst (run_on_request uni vm srcs s)))"
  by (simp add: run_on_request_def inv_request_loop)

lemma inv_route_plugin: "inv (snd s) \<Longrightarrow> inv (snd (fst (route_plugin uni vm srcs n s)))"
  using inv_plugin_hook [of s vm srcs "''on_route''" n]
  by (auto simp: route_plugin_def split: prod.splits option.splits dest: inv_call_hookD)

lemma inv_route_loop: "inv (snd s) \<Longrightarrow> inv (snd (fst (route_loop uni vm srcs ns s)))"
proof (induction ns arbitrary: s)
  case (Cons n ns)
  then show ?case
    using inv_route_plugin [of s vm srcs n] by (auto split: prod.splits option.splits)
qed simp

lemma inv_run_on_route: "inv (snd s) \<Longrightarrow> inv (snd (fst (run_on_route uni vm srcs s)))"
  using inv_route_loop [of s vm srcs "ps_pipeline srcs"]
  by (auto simp: run_on_route_def split: prod.splits)

lemma inv_transform_plugin: "inv (snd s) \<Longrightarrow> inv (snd (transform_plugin uni vm srcs n s))"
  using inv_plugin_hook [of s vm srcs "''on_transform''" n]
  by (auto simp: transform_plugin_def split: prod.splits option.splits dest: inv_call_hook)

lemma inv_run_on_transform: "inv (snd s) \<Longrightarrow> inv (snd (fst (run_on_transform uni vm srcs s)))"
proof -
  have "inv (snd s) \<Longrightarrow> inv (snd (fold (transform_plugin uni vm srcs) ns s))" for ns s
    by (induction ns arbitrary: s) (simp_all add: inv_transform_plugin)
  then show "inv (snd s) \<Longrightarrow> inv (snd (fst (run_on_transform uni vm srcs s)))"
    by (simp add: run_on_transform_def)
qed

lemma inv_response_plugin: "inv (snd s) \<Longrightarrow> inv (snd (response_plugin uni vm srcs n s))"
  using inv_plugin_hook [of s vm srcs "''on_response''" n]
  by (auto simp: response_plugin_def split: prod.splits option.splits dest: inv_call_hook)

lemma inv_run_on_response: "inv (snd s) \<Longrightarrow> inv (snd (fst (run_on_response uni vm srcs s)))"
proof -
  have "inv (snd s) \<Longrightarrow> inv (snd (fold (response_plugin uni vm srcs) ns s))" for ns s
    by (induction ns arbitrary: s) (simp_all add: inv_response_plugin)
  then show "inv (snd s) \<Longrightarrow> inv (snd (fst (run_on_response uni vm srcs s)))"
    by (simp add: run_on_response_def)
qed

end

subsection \<open>What a hook loop should do\<close>

text \<open>
  The reference for the two loops that stop early, written without their flags. A turn of a
  plugin is the lookup of its hook and, if there is one, its call: the result is the state
  after the turn and what the hook returned (\<open>None\<close>: no hook was called). \<open>all_turns\<close> are the
  turns of all the plugins, one after the other and without stopping.
\<close>

definition hook_turn ::
    "(string \<Rightarrow> string) \<Rightarrow> ('g, 'f) lua_vm \<Rightarrow> plugin_sources \<Rightarrow> string \<Rightarrow> string \<Rightarrow>
      'g engine_state \<Rightarrow> 'g engine_state \<times> lua_ret option" where
  "hook_turn uni vm srcs hook n s =
     (case plugin_hook uni vm srcs hook n s of
        (s1, None) \<Rightarrow> (s1, None)
      | (s1, Some f) \<Rightarrow> apsnd Some (call_hook uni vm f s1))"

fun all_turns ::
    "(string \<Rightarrow> string) \<Rightarrow> ('g, 'f) lua_vm \<Rightarrow> plugin_sources \<Rightarrow> string \<Rightarrow> string list \<Rightarrow>
      'g engine_state \<Rightarrow> ('g engine_state \<times> lua_ret option) list" where
  "all_turns uni vm srcs hook [] s = []"
| "all_turns uni vm srcs hook (n # ns) s =
     hook_turn uni vm srcs hook n s #
       all_turns uni vm srcs hook ns (fst (hook_turn uni vm srcs hook n s))"

definition last_turn :: "'g engine_state \<Rightarrow> ('g engine_state \<times> lua_ret option) list \<Rightarrow> 'g engine_state" where
  "last_turn s ts = last (s # map fst ts)"

lemma last_turn_simps [simp]:
  "last_turn s [] = s"
  "last_turn s (t # ts) = last_turn (fst t) ts"
  by (simp_all add: last_turn_def)

text \<open>A turn that rejects: a hook was called, and the request is rejected after the call.\<close>

definition rejecting :: "'g engine_state \<times> lua_ret option \<Rightarrow> bool" where
  "rejecting t = (snd t \<noteq> None \<and> is_rejected (snd (fst t)))"

text \<open>A turn that names an upstream: the hook returned a string.\<close>

fun named_upstream :: "'g engine_state \<times> lua_ret option \<Rightarrow> string option" where
  "named_upstream (s, Some (Ret_String u)) = Some u"
| "named_upstream (s, _) = None"

lemma rejecting_cases: "rejecting = (\<lambda>(s', r). r \<noteq> None \<and> is_rejected (snd s'))"
  by (auto simp: rejecting_def)

lemma named_upstream_Some: "named_upstream t = Some u \<longleftrightarrow> snd t = Some (Ret_String u)"
  by (cases t rule: named_upstream.cases) auto

lemma named_upstream_cases:
  "(\<lambda>t. named_upstream t \<noteq> None) = (\<lambda>(s', r). \<exists>u. r = Some (Ret_String u))"
  by (auto simp: named_upstream_Some)

lemma request_plugin_turn:
  "request_plugin uni vm srcs n s =
     (fst (hook_turn uni vm srcs ''on_request'' n s), rejecting (hook_turn uni vm srcs ''on_request'' n s))"
  by (simp add: request_plugin_def hook_turn_def rejecting_def apsnd_def map_prod_def
      split: prod.split option.split)

lemma request_loop_turns:
  "request_loop uni vm srcs ns s =
     (case find rejecting (all_turns uni vm srcs ''on_request'' ns s) of
        Some t \<Rightarrow> fst t
      | None \<Rightarrow> last_turn s (all_turns uni vm srcs ''on_request'' ns s))"
  by (induction ns arbitrary: s) (simp_all add: request_plugin_turn option.case_eq_if)

lemma route_plugin_turn:
  "route_plugin uni vm srcs n s =
     (fst (hook_turn uni vm srcs ''on_route'' n s), named_upstream (hook_turn uni vm srcs ''on_route'' n s))"
  by (auto simp: route_plugin_def hook_turn_def split: prod.split option.split lua_ret.split)

lemma route_loop_turns:
  "route_loop uni vm srcs ns s =
     (case find (\<lambda>t. named_upstream t \<noteq> None) (all_turns uni vm srcs ''on_route'' ns s) of
        Some t \<Rightarrow> (fst t, named_upstream t)
      | None \<Rightarrow>
          (last_turn s (all_turns uni vm srcs ''on_route'' ns s),
           hm_get (vars (snd (last_turn s (all_turns uni vm srcs ''on_route'' ns s)))) upstream_var))"
  by (induction ns arbitrary: s) (auto simp: route_plugin_turn split: option.splits)

subsection \<open>Plugins whose source is missing\<close>

lemma plugin_hook_missing:
  "hm_get (ps_sources srcs) n = None \<Longrightarrow> plugin_hook uni vm srcs hook n s = (s, None)"
  by (simp add: plugin_hook_def)

lemma plugin_hook_cong:
  "hm_get (ps_sources a) n = hm_get (ps_sources b) n \<Longrightarrow>
     plugin_hook uni vm a hook n s = plugin_hook uni vm b hook n s"
  by (simp add: plugin_hook_def)

text \<open>
  Dropping the plugins without a source from the pipeline changes no hook run, as long as the
  others keep their source.
\<close>

definition same_loaded :: "plugin_sources \<Rightarrow> plugin_sources \<Rightarrow> bool" where
  "same_loaded a b =
     (ps_pipeline b = filter (\<lambda>n. hm_get (ps_sources a) n \<noteq> None) (ps_pipeline a) \<and>
      list_all (\<lambda>n. hm_get (ps_sources b) n = hm_get (ps_sources a) n) (ps_pipeline b))"

lemma request_loop_filter:
  assumes "\<And>n. n \<in> set ns \<Longrightarrow> hm_get (ps_sources a) n \<noteq> None \<Longrightarrow>
    hm_get (ps_sources b) n = hm_get (ps_sources a) n"
  shows "request_loop uni vm b (filter (\<lambda>n. hm_get (ps_sources a) n \<noteq> None) ns) s =
    request_loop uni vm a ns s"
  using assms
proof (induction ns arbitrary: s)
  case (Cons n ns)
  show ?case
  proof (cases "hm_get (ps_sources a) n")
    case None
    then have "request_plugin uni vm a n s = (s, False)"
      by (simp add: request_plugin_def plugin_hook_missing)
    with None Cons show ?thesis by simp
  next
    case (Some src)
    then have "request_plugin uni vm b n s = request_plugin uni vm a n s"
      using Cons.prems [of n] by (simp add: request_plugin_def plugin_hook_cong [of b n a])
    with Some Cons show ?thesis by (simp split: prod.splits)
  qed
qed simp

lemma route_loop_filter:
  assumes "\<And>n. n \<in> set ns \<Longrightarrow> hm_get (ps_sources a) n \<noteq> None \<Longrightarrow>
    hm_get (ps_sources b) n = hm_get (ps_sources a) n"
  shows "route_loop uni vm b (filter (\<lambda>n. hm_get (ps_sources a) n \<noteq> None) ns) s =
    route_loop uni vm a ns s"
  using assms
proof (induction ns arbitrary: s)
  case (Cons n ns)
  show ?case
  proof (cases "hm_get (ps_sources a) n")
    case None
    then have "route_plugin uni vm a n s = (s, None)"
      by (simp add: route_plugin_def plugin_hook_missing)
    with None Cons show ?thesis by simp
  next
    case (Some src)
    then have "route_plugin uni vm b n s = route_plugin uni vm a n s"
      using Cons.prems [of n] by (simp add: route_plugin_def plugin_hook_cong [of b n a])
    with Some Cons show ?thesis by (simp split: prod.splits option.splits)
  qed
qed simp

lemma fold_filter_same:
  assumes "\<And>n s. n \<in> set ns \<Longrightarrow> \<not> P n \<Longrightarrow> f n s = s"
    and "\<And>n s. n \<in> set ns \<Longrightarrow> P n \<Longrightarrow> g n s = f n s"
  shows "fold g (filter P ns) s = fold f ns s"
  using assms by (induction ns arbitrary: s) auto

lemma same_loaded_runs:
  assumes "same_loaded a b"
  shows "run_on_request uni vm b s = run_on_request uni vm a s"
    and "run_on_route uni vm b s = run_on_route uni vm a s"
    and "run_on_transform uni vm b s = run_on_transform uni vm a s"
    and "run_on_response uni vm b s = run_on_response uni vm a s"
proof -
  let ?ns = "ps_pipeline a" and ?P = "\<lambda>n. hm_get (ps_sources a) n \<noteq> None"
  have pipe: "ps_pipeline b = filter ?P ?ns"
    and keep: "\<And>n. n \<in> set ?ns \<Longrightarrow> ?P n \<Longrightarrow> hm_get (ps_sources b) n = hm_get (ps_sources a) n"
    using assms by (auto simp: same_loaded_def list_all_iff)
  have "request_loop uni vm b (filter ?P ?ns) s = request_loop uni vm a ?ns s"
    by (rule request_loop_filter) (rule keep)
  then show "run_on_request uni vm b s = run_on_request uni vm a s"
    unfolding run_on_request_def pipe by (simp only:)
  have "route_loop uni vm b (filter ?P ?ns) s = route_loop uni vm a ?ns s"
    by (rule route_loop_filter) (rule keep)
  then show "run_on_route uni vm b s = run_on_route uni vm a s"
    unfolding run_on_route_def pipe by (simp only:)
  have "fold (transform_plugin uni vm b) (filter ?P ?ns) s = fold (transform_plugin uni vm a) ?ns s"
    by (rule fold_filter_same)
      (simp_all add: transform_plugin_def plugin_hook_missing plugin_hook_cong [OF keep])
  then show "run_on_transform uni vm b s = run_on_transform uni vm a s"
    by (simp add: run_on_transform_def pipe)
  have "fold (response_plugin uni vm b) (filter ?P ?ns) s = fold (response_plugin uni vm a) ?ns s"
    by (rule fold_filter_same)
      (simp_all add: response_plugin_def plugin_hook_missing plugin_hook_cong [OF keep])
  then show "run_on_response uni vm b s = run_on_response uni vm a s"
    by (simp add: run_on_response_def pipe)
qed

lemma request_plugin_pipeline [simp]:
  "request_plugin uni vm (srcs\<lparr>ps_pipeline := p\<rparr>) n s = request_plugin uni vm srcs n s"
  by (simp add: request_plugin_def plugin_hook_def)

lemma request_loop_pipeline [simp]:
  "request_loop uni vm (srcs\<lparr>ps_pipeline := p\<rparr>) ns s = request_loop uni vm srcs ns s"
  by (induction ns arbitrary: s) (simp_all split: prod.split)

subsection \<open>The result of a hook call\<close>

text \<open>A machine every call of which fails after it has had its effects.\<close>

definition failing_calls :: "('g, 'f) lua_vm \<Rightarrow> ('g, 'f) lua_vm" where
  "failing_calls vm =
     vm\<lparr>vm_call := (\<lambda>f c g. case vm_call vm f c g of (g', calls, r) \<Rightarrow> (g', calls, Call_Err))\<rparr>"

lemma failing_plugin_hook:
  "plugin_hook uni (failing_calls vm) srcs hook n s = plugin_hook uni vm srcs hook n s"
  by (auto simp: plugin_hook_def load_plugin_def failing_calls_def split: option.split prod.split)

lemma failing_call_hook:
  "call_hook uni (failing_calls vm) f s = (fst (call_hook uni vm f s), Call_Err)"
  by (simp add: call_hook_def failing_calls_def split: prod.split)

lemma failing_request_plugin:
  "request_plugin uni (failing_calls vm) srcs n s = request_plugin uni vm srcs n s"
  by (auto simp: request_plugin_def failing_plugin_hook failing_call_hook split: prod.split option.split)

lemma failing_request_loop:
  "request_loop uni (failing_calls vm) srcs ns s = request_loop uni vm srcs ns s"
  by (induction ns arbitrary: s) (simp_all add: failing_request_plugin split: prod.split)

subsection \<open>Properties\<close>

text \<open>
  Loading the plugin sources never fails, whatever the file system answers: the pipeline is
  the configured one, and a plugin has the text that was read for it, or none if the read
  failed. The error branches of the callers (\<open>POST /reload\<close>, the watcher) are unreachable.
\<close>

theorem plugin_load_total:
  "\<exists>ps. PluginSources_load read_file cfg = Inr ps \<and> ps_pipeline ps = pc_pipeline cfg \<and>
     (\<forall>n. hm_get (ps_sources ps) n =
        (if n \<in> set (pc_pipeline cfg) then read_file (path_join (pc_dir cfg) n) else None))"
  using PluginSources_load_total [of read_file cfg] PluginSources_load_sources [of read_file cfg]
  by blast

text \<open>
  C27. A plugin whose file cannot be read is skipped by all four hooks, as if it had never been
  in the pipeline: no request is refused because a security plugin is missing.
\<close>

theorem unreadable_plugins_skipped:
  "\<exists>a b. PluginSources_load read_file cfg = Inr a \<and>
     PluginSources_load read_file
       (cfg\<lparr>pc_pipeline := filter (\<lambda>n. read_file (path_join (pc_dir cfg) n) \<noteq> None) (pc_pipeline cfg)\<rparr>)
       = Inr b \<and>
     (\<forall>s. run_on_request uni vm b s = run_on_request uni vm a s \<and>
          run_on_route uni vm b s = run_on_route uni vm a s \<and>
          run_on_transform uni vm b s = run_on_transform uni vm a s \<and>
          run_on_response uni vm b s = run_on_response uni vm a s)"
proof -
  let ?cfg = "cfg\<lparr>pc_pipeline := filter (\<lambda>n. read_file (path_join (pc_dir cfg) n) \<noteq> None) (pc_pipeline cfg)\<rparr>"
  obtain a b where a: "PluginSources_load read_file cfg = Inr a"
    and b: "PluginSources_load read_file ?cfg = Inr b"
    using PluginSources_load_total by blast
  have "same_loaded a b"
    unfolding same_loaded_def
    by (auto simp: PluginSources_load_sources [OF a] PluginSources_load_sources [OF b] list_all_iff
        intro: filter_cong)
  from same_loaded_runs [OF this] a b show ?thesis by blast
qed

text \<open>
  C12. The request loop stops at a rejection: its outcome is the state after the first turn in
  which a plugin's \<open>on_request\<close> hook was called and left the request rejected, so the plugins
  after it are neither loaded nor called; without such a turn it is the state after the turns
  of all plugins. The loop reports no error in either case.
\<close>

theorem on_request_stops:
  "run_on_request uni vm srcs s =
     (case find (\<lambda>(s', r). r \<noteq> None \<and> is_rejected (snd s'))
             (all_turns uni vm srcs ''on_request'' (ps_pipeline srcs) s) of
        Some (s', r) \<Rightarrow> (s', Inr ())
      | None \<Rightarrow>
          (last (s # map fst (all_turns uni vm srcs ''on_request'' (ps_pipeline srcs) s)), Inr ()))"
  by (simp only: run_on_request_def request_loop_turns last_turn_def rejecting_cases)
    (simp split: option.split prod.split)

text \<open>
  C26. The request loop does not act on errors of a hook: if every call failed after its effects
  on the context, the outcome would be the same. A plugin that raises an error before it calls
  \<open>reject\<close> lets the request through.
\<close>

theorem on_request_ignores_errors:
  "run_on_request uni (failing_calls vm) srcs s = run_on_request uni vm srcs s"
  by (simp add: run_on_request_def failing_request_loop)

end
