(* ===== verification/Json.thy ===== *)
theory Json
  imports Utf8
begin

section \<open>json.encode (src/lua/engine.rs)\<close>

text \<open>
  \<open>lua_value_to_json\<close> on Lua values, and the grammar of JSON texts (RFC 8259, without white
  space) against which its output is checked. A Lua table is its sequence part, the results of
  \<open>t.get(i)\<close> for \<open>i\<close> from \<open>1\<close> to \<open>raw_len\<close>, and its other entries in the order \<open>pairs\<close> meets them. The
  result of a \<open>get\<close> may be nil, or \<open>None\<close> where an \<open>__index\<close> metamethod fails; a value of another
  entry is never nil. Numbers that are not integers are formatted by the standard library's
  \<open>f64::to_string\<close>, the parameter \<open>fmt\<close>.

  The values here are trees. Lua tables are references and may be cyclic, and the code recurses
  on them without a bound: \<open>JsonHeap\<close> has the encoder on a heap of tables, shows that it is this
  one on the tables that unfold to a tree, and that on a cyclic table it exhausts every stack.
\<close>

datatype 'n lua_value =
    LNil
  | LBoolean bool
  | LInteger "64 word"
  | LNumber 'n
  | LString "byte list"
  | LTable "'n lua_value option list" "('n lua_value \<times> 'n lua_value) list"
  | LOther

text \<open>\<open>i64::to_string\<close>, \<open>bool::to_string\<close> and \<open>str::replace\<close> of the quote.\<close>

definition dec_digit :: "nat \<Rightarrow> char" where
  "dec_digit d = ''0123456789'' ! d"

fun show_nat :: "nat \<Rightarrow> string" where
  "show_nat n = (if n < 10 then [dec_digit n] else show_nat (n div 10) @ [dec_digit (n mod 10)])"

declare show_nat.simps [simp del]

definition show_i64 :: "64 word \<Rightarrow> string" where
  "show_i64 i = (if sint i < 0 then CHR ''-'' # show_nat (nat (- sint i)) else show_nat (nat (sint i)))"

definition show_bool :: "bool \<Rightarrow> string" where
  "show_bool b = (if b then ''true'' else ''false'')"

fun escape_quotes :: "string \<Rightarrow> string" where
  "escape_quotes [] = []"
| "escape_quotes (c # s) =
     (if c = CHR 0x22 then CHR 0x5C # CHR 0x22 # escape_quotes s else c # escape_quotes s)"

definition quoted :: "string \<Rightarrow> string" where
  "quoted s = CHR 0x22 # s @ [CHR 0x22]"

fun lua_value_to_json :: "('n \<Rightarrow> string) \<Rightarrow> 'n lua_value \<Rightarrow> string" where
  "lua_value_to_json fmt (LString s) =
     (if utf8_valid s then quoted (escape_quotes (of_bytes s)) else quoted [])"
| "lua_value_to_json fmt (LInteger i) = show_i64 i"
| "lua_value_to_json fmt (LNumber n) = fmt n"
| "lua_value_to_json fmt (LBoolean b) = show_bool b"
| "lua_value_to_json fmt LNil = ''null''"
| "lua_value_to_json fmt (LTable arr hash) =
     (if length arr > 0 then
        ''['' @ join '',''
          (concat (map (\<lambda>x. case x of Some v \<Rightarrow> [lua_value_to_json fmt v] | None \<Rightarrow> []) arr)) @ '']''
      else
        ''{'' @ join '',''
          (map (\<lambda>(k, v). lua_value_to_json fmt k @ '':'' @ lua_value_to_json fmt v) hash) @ ''}'')"
| "lua_value_to_json fmt LOther = ''null''"

subsection \<open>The grammar of JSON\<close>

datatype json =
    JNull
  | JBool bool
  | JInt int
  | JString string
  | JArray "json list"
  | JObject "(string \<times> json) list"

definition json_escape :: "char \<Rightarrow> char option" where
  "json_escape e =
     map_of [(CHR 0x22, CHR 0x22), (CHR 0x5C, CHR 0x5C), (CHR ''/'', CHR ''/''),
             (CHR ''b'', CHR 0x08), (CHR ''f'', CHR 0x0C), (CHR ''n'', CHR 0x0A),
             (CHR ''r'', CHR 0x0D), (CHR ''t'', CHR 0x09)] e"

definition plain_char :: "char \<Rightarrow> bool" where
  "plain_char c = (c \<noteq> CHR 0x22 \<and> c \<noteq> CHR 0x5C \<and> 32 \<le> (of_char c :: nat))"

text \<open>
  The characters between the quotes and the string they denote. A Unicode escape may denote any
  string of at most four bytes here, so the relation accepts at least what a JSON reader accepts.
\<close>

inductive json_body :: "string \<Rightarrow> string \<Rightarrow> bool" where
  Nil: "json_body [] []"
| Plain: "plain_char c \<Longrightarrow> json_body b r \<Longrightarrow> json_body (c # b) (c # r)"
| Escape: "json_escape e = Some d \<Longrightarrow> json_body b r \<Longrightarrow> json_body (CHR 0x5C # e # b) (d # r)"
| Unicode: "length hs = 4 \<Longrightarrow> set hs \<subseteq> set ''0123456789abcdefABCDEF'' \<Longrightarrow> length out \<le> 4 \<Longrightarrow>
    json_body b r \<Longrightarrow> json_body (CHR 0x5C # CHR ''u'' # hs @ b) (out @ r)"

inductive_cases json_body_Cons: "json_body (c # b) r"

text \<open>Whole values.\<close>

inductive json_text :: "json \<Rightarrow> string \<Rightarrow> bool" where
  Null: "json_text JNull ''null''"
| Bool: "json_text (JBool b) (show_bool b)"
| Nat: "json_text (JInt (int n)) (show_nat n)"
| Neg: "json_text (JInt (- int n)) (CHR ''-'' # show_nat n)"
| String: "json_body b s \<Longrightarrow> json_text (JString s) (quoted b)"
| Array: "list_all2 json_text js ts \<Longrightarrow> json_text (JArray js) (''['' @ join '','' ts @ '']'')"
| Object: "list_all2 (\<lambda>m t. \<exists>b u. json_body b (fst m) \<and> json_text (snd m) u \<and> t = quoted b @ '':'' @ u) ms ts \<Longrightarrow>
    json_text (JObject ms) (''{'' @ join '','' ts @ ''}'')"
monos list_all2_mono

subsection \<open>Strings\<close>

text \<open>The strings the encoder handles: no backslash, no control character.\<close>

definition json_safe_string :: "string \<Rightarrow> bool" where
  "json_safe_string s = list_all (\<lambda>c. c = CHR 0x22 \<or> plain_char c) s"

lemma escape_quotes_safe: "json_safe_string s \<Longrightarrow> json_body (escape_quotes s) s"
  unfolding json_safe_string_def
  by (induction s) (auto intro: json_body.intros simp: json_escape_def)

abbreviation quotes :: "string \<Rightarrow> nat" where
  "quotes s \<equiv> count_list s (CHR 0x22)"

lemma length_escape_quotes: "length (escape_quotes s) = length s + quotes s"
  by (induction s) simp_all

lemma quotes_escape_quotes: "quotes (escape_quotes s) = quotes s"
  by (induction s) simp_all

text \<open>Every token of a body is at least as long as what it denotes, a quote one longer.\<close>

lemma json_body_length: "json_body b r \<Longrightarrow> length r + quotes b \<le> length b"
proof (induction rule: json_body.induct)
  case (Unicode hs out b r)
  have "CHR 0x22 \<notin> set hs" using Unicode.hyps(2) by auto
  then have "quotes hs = 0" by (simp add: count_list_0_iff)
  with Unicode show ?case by simp
qed (auto simp: plain_char_def)

lemma escape_quotes_hd: "escape_quotes s \<noteq> CHR 0x22 # b"
  by (cases s) auto

lemma json_body_backslash:
  assumes "json_body (CHR 0x5C # b) r"
  shows "(\<exists>b'. b = CHR 0x22 # b') \<or> length r + quotes b \<le> length b"
  using assms
proof cases
  case (Escape e d b' r')
  then show ?thesis using json_body_length [of b' r'] by auto
next
  case (Unicode hs out b' r')
  have "CHR 0x22 \<notin> set hs" using Unicode by auto
  then have "quotes hs = 0" by (simp add: count_list_0_iff)
  with Unicode json_body_length [of b' r'] show ?thesis by simp
qed (simp add: plain_char_def)

lemma escape_quotes_unsafe:
  "json_body (escape_quotes s) s \<Longrightarrow> json_safe_string s"
proof (induction s)
  case Nil
  then show ?case by (simp add: json_safe_string_def)
next
  case (Cons c s)
  consider "c = CHR 0x22" | "c = CHR 0x5C" | "c \<noteq> CHR 0x22" "c \<noteq> CHR 0x5C" by blast
  then show ?case
  proof cases
    case 1
    with Cons.prems have "json_body (CHR 0x5C # CHR 0x22 # escape_quotes s) (c # s)" by simp
    then have "json_body (escape_quotes s) s"
      by (auto elim!: json_body_Cons simp: plain_char_def)
    with Cons.IH 1 show ?thesis by (simp add: json_safe_string_def)
  next
    case 2
    with Cons.prems have "json_body (CHR 0x5C # escape_quotes s) (c # s)" by simp
    from json_body_backslash [OF this] show ?thesis
      by (simp add: escape_quotes_hd length_escape_quotes quotes_escape_quotes)
  next
    case 3
    with Cons.prems have "json_body (c # escape_quotes s) (c # s)" by simp
    then have "plain_char c \<and> json_body (escape_quotes s) s"
      using 3 by (auto elim!: json_body_Cons)
    with Cons.IH show ?thesis by (simp add: json_safe_string_def)
  qed
qed

subsection \<open>Values\<close>

text \<open>The JSON value a Lua value stands for, and the values on which the encoder is right.\<close>

fun key_string :: "'n lua_value \<Rightarrow> string" where
  "key_string (LString s) = of_bytes s"
| "key_string _ = []"

fun json_of :: "'n lua_value \<Rightarrow> json" where
  "json_of (LString s) = JString (of_bytes s)"
| "json_of (LInteger i) = JInt (sint i)"
| "json_of (LNumber n) = JNull"
| "json_of (LBoolean b) = JBool b"
| "json_of LNil = JNull"
| "json_of (LTable arr hash) =
     (if arr = [] then JObject (map (\<lambda>(k, v). (key_string k, json_of v)) hash)
      else JArray (map (\<lambda>x. case x of Some v \<Rightarrow> json_of v | None \<Rightarrow> JNull) arr))"
| "json_of LOther = JNull"

fun json_safe :: "'n lua_value \<Rightarrow> bool" where
  "json_safe (LString s) = (utf8_valid s \<and> json_safe_string (of_bytes s))"
| "json_safe (LInteger i) = True"
| "json_safe (LNumber n) = False"
| "json_safe (LBoolean b) = True"
| "json_safe LNil = True"
| "json_safe (LTable arr hash) =
     (if arr = []
      then list_all (\<lambda>(k, v). (case k of LString s \<Rightarrow> utf8_valid s \<and> json_safe_string (of_bytes s)
                                     | _ \<Rightarrow> False) \<and> json_safe v) hash
      else list_all (\<lambda>x. case x of Some v \<Rightarrow> json_safe v | None \<Rightarrow> False) arr)"
| "json_safe LOther = True"

lemma json_text_i64: "json_text (JInt (sint i)) (show_i64 i)"
proof (cases "sint i < 0")
  case True
  then show ?thesis using json_text.Neg [of "nat (- sint i)"] by (simp add: show_i64_def)
next
  case False
  then show ?thesis using json_text.Nat [of "nat (sint i)"] by (simp add: show_i64_def)
qed

lemma json_text_member:
  assumes "case k of LString s \<Rightarrow> utf8_valid s \<and> json_safe_string (of_bytes s) | _ \<Rightarrow> False"
  shows "\<exists>b. json_body b (key_string k) \<and> lua_value_to_json fmt k = quoted b"
  using assms by (auto split: lua_value.splits intro: escape_quotes_safe)

lemma json_encode_sound: "json_safe v \<Longrightarrow> json_text (json_of v) (lua_value_to_json fmt v)"
proof (induction v rule: json_of.induct)
  case (6 arr hash)
  show ?case
  proof (cases "arr = []")
    case True
    have "list_all2 (\<lambda>m t. \<exists>b u. json_body b (fst m) \<and> json_text (snd m) u \<and> t = quoted b @ '':'' @ u)
      (map (\<lambda>(k, v). (key_string k, json_of v)) hash)
      (map (\<lambda>(k, v). lua_value_to_json fmt k @ '':'' @ lua_value_to_json fmt v) hash)"
      unfolding list_all2_map1 list_all2_map2
      list_all2_same
    proof
      fix e assume e: "e \<in> set hash"
      obtain k v where kv: "e = (k, v)" by (cases e)
      with 6 True e have "json_text (json_of v) (lua_value_to_json fmt v)"
        and "case k of LString s \<Rightarrow> utf8_valid s \<and> json_safe_string (of_bytes s) | _ \<Rightarrow> False"
        by (auto simp: list_all_iff)
      with json_text_member [of k fmt] kv show "\<exists>b u. json_body b (fst (case e of (k, v) \<Rightarrow> (key_string k, json_of v))) \<and>
          json_text (snd (case e of (k, v) \<Rightarrow> (key_string k, json_of v))) u \<and>
          (case e of (k, v) \<Rightarrow> lua_value_to_json fmt k @ '':'' @ lua_value_to_json fmt v) =
            quoted b @ '':'' @ u"
        by auto
    qed
    from json_text.Object [OF this] True show ?thesis by simp
  next
    case False
    with 6(3) have some: "x \<in> set arr \<Longrightarrow> \<exists>v. x = Some v \<and> json_safe v" for x
      by (auto simp: list_all_iff split: option.splits)
    then have "concat (map (\<lambda>x. case x of Some v \<Rightarrow> [lua_value_to_json fmt v] | None \<Rightarrow> []) arr) =
      map (lua_value_to_json fmt \<circ> the) arr"
      by (induction arr) fastforce+
    moreover have "list_all2 json_text (map (\<lambda>x. case x of Some v \<Rightarrow> json_of v | None \<Rightarrow> JNull) arr)
      (map (lua_value_to_json fmt \<circ> the) arr)"
      unfolding list_all2_map1 list_all2_map2 list_all2_same
      using some 6(2) [OF False] by fastforce
    ultimately show ?thesis using json_text.Array False by simp
  qed
qed (auto intro: json_text.intros json_text_i64 escape_quotes_safe)

text \<open>An object whose first key is an integer is not JSON: its text does not start with a quote.\<close>

lemma show_nat_hd: "\<exists>d s. show_nat n = d # s \<and> d \<in> set ''0123456789''"
proof (induction n rule: show_nat.induct)
  case (1 n)
  have digit: "m < 10 \<Longrightarrow> dec_digit m \<in> set ''0123456789''" for m
    unfolding dec_digit_def by (rule nth_mem) simp
  show ?case
  proof (cases "n < 10")
    case True
    with digit show ?thesis by (subst show_nat.simps) simp
  next
    case False
    with 1 obtain d s where "show_nat (n div 10) = d # s \<and> d \<in> set ''0123456789''" by blast
    with False show ?thesis by (subst show_nat.simps) simp
  qed
qed

lemma show_i64_hd: "\<exists>d s. show_i64 i = d # s \<and> d \<in> set ''-0123456789''"
proof -
  obtain d s where "show_nat (nat (sint i)) = d # s \<and> d \<in> set ''0123456789''"
    using show_nat_hd by blast
  then show ?thesis by (auto simp: show_i64_def)
qed

lemma join_hd: "ts \<noteq> [] \<Longrightarrow> hd ts = c # r \<Longrightarrow> \<exists>r'. join sep ts @ z = c # r'"
  by (cases ts rule: list.exhaust; cases "tl ts") auto

lemma json_object_hd:
  assumes "json_text j (CHR 0x7B # c # s)"
  shows "c = CHR 0x22 \<or> c = CHR 0x7D"
proof -
  have nat: "show_nat n \<noteq> CHR 0x7B # r" for n r
    using show_nat_hd [of n] by auto
  from assms show ?thesis
  proof cases
    case (Object ms ts)
    show ?thesis
    proof (cases ts)
      case Nil
      with Object show ?thesis by simp
    next
      case (Cons t ts')
      with Object obtain b u where "t = quoted b @ '':'' @ u" by (auto simp: list_all2_Cons2)
      then have "hd ts = CHR 0x22 # (b @ [CHR 0x22]) @ '':'' @ u"
        using Cons by (simp add: quoted_def)
      then obtain r where "join '','' ts @ ''}'' = CHR 0x22 # r"
        using join_hd [of ts] Cons by blast
      moreover have "c # s = join '','' ts @ ''}''" using Object by simp
      ultimately show ?thesis by simp
    qed
  next
    case (Nat n)
    then show ?thesis using nat by metis
  next
    case (Bool b)
    then have "hd (show_bool b) = CHR 0x7B" by (metis list.sel(1))
    moreover have "hd (show_bool b) \<noteq> CHR 0x7B" by (simp add: show_bool_def)
    ultimately show ?thesis by blast
  next
    case Null
    then show ?thesis by blast
  next
    case (Neg n)
    then show ?thesis by blast
  next
    case (String b r)
    then show ?thesis by (simp add: quoted_def)
  next
    case (Array js ts)
    then show ?thesis by simp
  qed
qed

subsection \<open>Properties\<close>

text \<open>
  C35. On the values it is meant for (strings without backslashes and control characters,
  integers, booleans, nil, sequences whose entries can be read, and tables whose keys are such strings, nested to any
  depth) \<open>json.encode\<close> produces a JSON text that denotes the value.
\<close>

theorem json_encode_valid:
  assumes "json_safe v"
  shows "json_text (json_of v) (lua_value_to_json fmt v)"
  using assms by (rule json_encode_sound)

theorem json_encode_valid_witness:
  "json_text (JObject [(''sub'', JString [CHR ''a'', CHR 0x22, CHR ''b'']), (''n'', JArray [JInt 1, JInt (- 2), JNull])])
     (lua_value_to_json show_nat
        (LTable [] [(LString (as_bytes ''sub''), LString (as_bytes [CHR ''a'', CHR 0x22, CHR ''b''])),
                    (LString (as_bytes ''n''), LTable [Some (LInteger 1), Some (LInteger (- 2)), Some LNil] [])]))"
proof -
  have "utf8_valid (as_bytes ''sub'')" "utf8_valid (as_bytes [CHR ''a'', CHR 0x22, CHR ''b''])" "utf8_valid (as_bytes ''n'')"
    by (rule utf8_valid_ascii; auto simp: as_bytes_def)+
  then show ?thesis
    using json_encode_valid [of "LTable [] [(LString (as_bytes ''sub''), LString (as_bytes [CHR ''a'', CHR 0x22, CHR ''b''])),
                    (LString (as_bytes ''n''), LTable [Some (LInteger 1), Some (LInteger (- 2)), Some LNil] [])]" show_nat]
    by (simp add: json_safe_string_def plain_char_def)
qed



text \<open>
  C37. What \<open>json.encode\<close> loses or breaks on tables: a table with a sequence part is encoded as
  that sequence and its other entries are dropped, and a table without one whose first key (in
  the order of \<open>pairs\<close>) is an integer gives a text that is no JSON at all, since the key is not quoted.
\<close>

theorem json_table_limits:
  "lua_value_to_json fmt (LTable (v # arr) hash) = lua_value_to_json fmt (LTable (v # arr) []) \<and>
   \<not> json_text j (lua_value_to_json fmt (LTable [] ((LInteger i, w) # hash)))"
proof -
  obtain d s where d: "show_i64 i = d # s" and digit: "d \<in> set ''-0123456789''"
    using show_i64_hd by blast
  have "\<exists>r. lua_value_to_json fmt (LTable [] ((LInteger i, w) # hash)) = CHR 0x7B # d # r"
    by (cases hash) (simp_all add: d)
  then show ?thesis using json_object_hd digit by fastforce
qed

end
