(* ===== verification/LuaUtil.thy ===== *)
theory LuaUtil
  imports Base64
begin

section \<open>HMAC strings and request ids for the plugins (src/lua/engine.rs)\<close>

text \<open>
  \<open>hmac_sha256_raw\<close> and \<open>uuid_v4\<close>. The digest itself comes from the \<open>hmac\<close> and \<open>sha2\<close>
  crates and is the parameter \<open>mac\<close> (key, then message); what the source adds is the conversion
  of the digest to a Rust \<open>String\<close>, one character per byte. The clock reading of \<open>uuid_v4\<close> is
  its argument.
\<close>

subsection \<open>The digest as a string\<close>

text \<open>\<open>b as char\<close> is the code point \<open>b\<close>; collected into a \<open>String\<close> it takes one or two bytes.\<close>

definition latin1_char :: "byte \<Rightarrow> byte list" where
  "latin1_char b = (if b < 0x80 then [b] else [0xC0 OR drop_bit 6 b, 0x80 OR (b AND 0x3F)])"

definition hmac_sha256_raw ::
    "(byte list \<Rightarrow> byte list \<Rightarrow> byte list) \<Rightarrow> byte list \<Rightarrow> byte list \<Rightarrow> string" where
  "hmac_sha256_raw mac msg secret = of_bytes (concat (map latin1_char (mac secret msg)))"

text \<open>The global \<open>hmac.sha256(msg, secret)\<close> of \<open>setup_globals\<close>.\<close>

definition lua_hmac_sha256 ::
    "(byte list \<Rightarrow> byte list \<Rightarrow> byte list) \<Rightarrow> string \<Rightarrow> string \<Rightarrow> string" where
  "lua_hmac_sha256 mac msg secret = hmac_sha256_raw mac (as_bytes msg) (as_bytes secret)"

lemma latin1_char_high:
  "list_all (\<lambda>n. utf8_scan (0xC0 OR drop_bit 6 (of_nat n)) [0x80 OR (of_nat n AND 0x3F)] = (True, 2))
     [128..<256]"
  by code_simp


lemma latin1_char_scan:
  assumes "\<not> b < 0x80"
  shows "utf8_scan (0xC0 OR drop_bit 6 b) [0x80 OR (b AND 0x3F)] = (True, 2)"
proof -
  have "unat b \<in> set [128..<256]"
    unfolding set_upt atLeastLessThan_iff using assms unat_byte_lt [of b]
    by (simp add: word_less_nat_alt)
  from bspec [OF latin1_char_high [unfolded list_all_iff] this] show ?thesis by simp
qed

lemma latin1_char_valid: "utf8_valid (latin1_char b)"
proof (cases "b < 0x80")
  case True
  then show ?thesis by (simp add: latin1_char_def utf8_scan_def char_width_def)
next
  case False
  then show ?thesis by (simp add: latin1_char_def latin1_char_scan)
qed

lemma latin1_valid: "utf8_valid (concat (map latin1_char bs))"
  by (induction bs) (auto intro: utf8_valid_append latin1_char_valid)

lemma length_latin1:
  "length (concat (map latin1_char bs)) = length bs + length (filter (\<lambda>b. \<not> b < 0x80) bs)"
  by (induction bs) (simp_all add: latin1_char_def)

lemma latin1_ascii_iff: "concat (map latin1_char bs) = bs \<longleftrightarrow> (\<forall>b \<in> set bs. b < 0x80)"
proof
  assume "concat (map latin1_char bs) = bs"
  then have "filter (\<lambda>b. \<not> b < 0x80) bs = []" using length_latin1 [of bs] by simp
  then show "\<forall>b \<in> set bs. b < 0x80" by (auto simp: filter_empty_conv)
next
  assume "\<forall>b \<in> set bs. b < 0x80"
  then show "concat (map latin1_char bs) = bs" by (induction bs) (simp_all add: latin1_char_def)
qed

text \<open>Reading the bytes back: a character below 0x80 is one byte, the others are two.\<close>

fun latin1_back :: "byte list \<Rightarrow> byte list" where
  "latin1_back (b # c # bs) =
     (if b < 0x80 then b # latin1_back (c # bs)
      else (push_bit 6 b OR (c AND 0x3F)) # latin1_back bs)"
| "latin1_back bs = bs"

lemma latin1_char_pairs:
  "list_all (\<lambda>n. \<not> 0xC0 OR drop_bit 6 (of_nat n :: byte) < 0x80 \<and>
      push_bit 6 (0xC0 OR drop_bit 6 (of_nat n :: byte)) OR
        ((0x80 OR (of_nat n AND 0x3F)) AND 0x3F) = of_nat n)
     [128..<256]"
  by code_simp

lemma latin1_char_pair:
  fixes b :: byte
  assumes "\<not> b < 0x80"
  shows "\<not> 0xC0 OR drop_bit 6 b < 0x80"
    and "push_bit 6 (0xC0 OR drop_bit 6 b) OR ((0x80 OR (b AND 0x3F)) AND 0x3F) = b"
proof -
  have "unat b \<in> set [128..<256]"
    unfolding set_upt atLeastLessThan_iff using assms unat_byte_lt [of b]
    by (simp add: word_less_nat_alt)
  from bspec [OF latin1_char_pairs [unfolded list_all_iff] this]
  show "\<not> 0xC0 OR drop_bit 6 b < 0x80"
    and "push_bit 6 (0xC0 OR drop_bit 6 b) OR ((0x80 OR (b AND 0x3F)) AND 0x3F) = b"
    by simp_all
qed

lemma latin1_back_char: "latin1_back (latin1_char b @ bs) = b # latin1_back bs"
proof (cases "b < 0x80")
  case True
  then show ?thesis by (cases bs) (simp_all add: latin1_char_def)
next
  case False
  then have "latin1_char b @ bs = (0xC0 OR drop_bit 6 b) # (0x80 OR (b AND 0x3F)) # bs"
    by (simp add: latin1_char_def)
  then show ?thesis by (simp only: latin1_back.simps latin1_char_pair [OF False] if_False)
qed

lemma latin1_back: "latin1_back (concat (map latin1_char bs)) = bs"
  by (induction bs) (simp_all add: latin1_back_char)

lemma latin1_inj: "concat (map latin1_char bs) = concat (map latin1_char cs) \<longleftrightarrow> bs = cs"
  using latin1_back by metis

subsection \<open>Hexadecimal formatting\<close>

text \<open>\<open>{:x}\<close> and \<open>{:0Nx}\<close> of \<open>format!\<close>: the digits, then zeros on the left up to the width.\<close>

definition hex_digit :: "nat \<Rightarrow> char" where
  "hex_digit d = ''0123456789abcdef'' ! d"

fun hex :: "nat \<Rightarrow> string" where
  "hex n = (if n < 16 then [hex_digit n] else hex (n div 16) @ [hex_digit (n mod 16)])"

declare hex.simps [simp del]

definition hexpad :: "nat \<Rightarrow> nat \<Rightarrow> string" where
  "hexpad w n = replicate (w - length (hex n)) CHR ''0'' @ hex n"

lemma length_hex_le: "0 < k \<Longrightarrow> length (hex n) \<le> k \<longleftrightarrow> n < 16 ^ k"
proof (induction n arbitrary: k rule: hex.induct)
  case (1 n)
  show ?case
  proof (cases "n < 16")
    case True
    with 1 have "n < 16 ^ k" using power_increasing [of 1 k "16 :: nat"] by simp
    with True 1 show ?thesis by (subst hex.simps) simp
  next
    case False
    obtain j where k: "k = Suc j" using 1 by (cases k) simp_all
    have len: "length (hex n) = Suc (length (hex (n div 16)))"
      using False by (subst hex.simps) simp
    show ?thesis
    proof (cases j)
      case 0
      moreover have "hex (n div 16) \<noteq> []" by (subst hex.simps) simp
      ultimately show ?thesis using len k False by simp
    next
      case (Suc i)
      then have "length (hex (n div 16)) \<le> j \<longleftrightarrow> n div 16 < 16 ^ j" using 1 False by simp
      also have "\<dots> \<longleftrightarrow> n < 16 ^ k" by (simp add: k div_less_iff_less_mult mult.commute)
      finally show ?thesis using len k by simp
    qed
  qed
qed

lemma length_hexpad: "length (hexpad w n) = max w (length (hex n))"
  by (simp add: hexpad_def)

lemma length_hexpad_fit: "0 < w \<Longrightarrow> n < 16 ^ w \<Longrightarrow> length (hexpad w n) = w"
  using length_hex_le [of w n] by (simp add: length_hexpad)

text \<open>Reading the digits back.\<close>

definition unhex_digit :: "char \<Rightarrow> nat" where
  "unhex_digit c = length (takeWhile (\<lambda>d. d \<noteq> c) ''0123456789abcdef'')"

definition unhex :: "string \<Rightarrow> nat" where
  "unhex s = foldl (\<lambda>a c. 16 * a + unhex_digit c) 0 s"

lemma unhex_digits_all: "list_all (\<lambda>d. unhex_digit (hex_digit d) = d) [0..<16]"
  by code_simp

lemma unhex_hex_digit: "d < 16 \<Longrightarrow> unhex_digit (hex_digit d) = d"
  using unhex_digits_all by (auto simp: list_all_iff)

lemma unhex_append_digit [simp]: "unhex (s @ [c]) = 16 * unhex s + unhex_digit c"
  by (simp add: unhex_def)

lemma unhex_hex: "unhex (hex n) = n"
proof (induction n rule: hex.induct)
  case (1 n)
  show ?case
  proof (cases "n < 16")
    case True
    then show ?thesis by (subst hex.simps) (simp add: unhex_def unhex_hex_digit)
  next
    case False
    with 1 show ?thesis by (subst hex.simps) (simp add: unhex_hex_digit)
  qed
qed

lemma unhex_hexpad: "unhex (hexpad w n) = n"
proof -
  have "unhex (replicate k CHR ''0'' @ s) = unhex s" for k s
    by (induction k) (simp_all add: unhex_def unhex_digit_def)
  then show ?thesis by (simp add: hexpad_def unhex_hex)
qed

lemma hexpad_digits: "set (hexpad w n) \<subseteq> set ''0123456789abcdef''"
proof -
  have digit: "d < 16 \<Longrightarrow> hex_digit d \<in> set ''0123456789abcdef''" for d
    unfolding hex_digit_def by (rule nth_mem) simp
  have "set (hex n) \<subseteq> set ''0123456789abcdef''"
  proof (induction n rule: hex.induct)
    case (1 n)
    then show ?case using digit [of n] digit [of "n mod 16"] by (subst hex.simps) auto
  qed
  then show ?thesis by (auto simp: hexpad_def)
qed

subsection \<open>\<open>uuid_v4\<close>\<close>

text \<open>
  The nanoseconds of the clock, as five groups. The last one is the 64-bit product, formatted
  with a minimal width of twelve.
\<close>

definition uuid_v4 :: "u32 \<Rightarrow> string" where
  "uuid_v4 ns =
     hexpad 8 (unat ns) @ ''-'' @
     hexpad 4 (unat (drop_bit 16 ns AND 0xFFFF)) @ ''-4'' @
     hexpad 3 (unat (drop_bit 4 ns AND 0x0FFF)) @ ''-'' @
     hexpad 4 (unat (0x8000 OR (drop_bit 2 ns AND 0x3FFF))) @ ''-'' @
     hexpad 12 (unat ((ucast ns :: u64) * 6364136223846793005))"

lemma and_mask_lt: "unat (x AND (mask k :: u32)) < 2 ^ k"
  using unsigned_take_bit_eq [of k x, where 'a = nat] by (simp flip: take_bit_eq_mask)

lemma uuid_group_bounds:
  fixes ns :: u32
  shows "unat ns < 16 ^ 8"
    and "unat (drop_bit 16 ns AND 0xFFFF) < 16 ^ 4"
    and "unat (drop_bit 4 ns AND 0x0FFF) < 16 ^ 3"
    and "unat (drop_bit 2 ns AND 0x3FFF) < 0x4000"
  using and_mask_lt [of "drop_bit 16 ns" 16] and_mask_lt [of "drop_bit 4 ns" 12]
    and_mask_lt [of "drop_bit 2 ns" 14] unsigned_less [of ns, where 'a = nat]
  by (simp_all add: mask_eq_exp_minus_1)

lemma uuid_variant: "unat (0x8000 OR (x AND 0x3FFF :: u32)) = 0x8000 + unat (x AND 0x3FFF)"
proof -
  have "0x8000 AND (x AND 0x3FFF :: u32) = 0"
    by (subst and.left_commute) simp
  then have "0x8000 OR (x AND 0x3FFF :: u32) = 0x8000 + (x AND 0x3FFF)"
    by (simp add: disjunctive_add_eq_or)
  moreover have "unat (x AND 0x3FFF) < 0x4000"
    using and_mask_lt [of x 14] by (simp add: mask_eq_exp_minus_1)
  ultimately show ?thesis by (simp add: unat_word_ariths)
qed


lemma hex_four: "4096 \<le> n \<Longrightarrow> n < 65536 \<Longrightarrow> \<exists>s. hex n = hex_digit (n div 4096) # s"
proof -
  assume n: "4096 \<le> n" "n < 65536"
  have long: "hex m = hex (m div 16) @ [hex_digit (m mod 16)]" if "16 \<le> m" for m
    using that by (subst hex.simps) simp
  have div: "n div 16 div 16 = n div 256" "n div 256 div 16 = n div 4096"
    by (simp_all flip: div_mult2_eq)
  have "16 \<le> n div 16" "16 \<le> n div 256" "n div 4096 < 16"
    using div_le_mono [OF n(1), of 16] div_le_mono [OF n(1), of 256] n(2)
    by (simp_all add: less_mult_imp_div_less)
  then have "hex (n div 16) = hex (n div 256) @ [hex_digit (n div 16 mod 16)]"
    and "hex (n div 256) = hex (n div 4096) @ [hex_digit (n div 256 mod 16)]"
    and "hex (n div 4096) = [hex_digit (n div 4096)]"
    using long [of "n div 16"] long [of "n div 256"] by (simp_all add: div hex.simps [of "n div 4096"])
  then show "\<exists>s. hex n = hex_digit (n div 4096) # s"
    using long [of n] n by simp
qed

text \<open>The fourth group starts with one of the four digits of the RFC 4122 variant.\<close>

lemma uuid_variant_digit:
  "hd (hexpad 4 (unat (0x8000 OR (drop_bit 2 ns AND 0x3FFF :: u32)))) \<in> set ''89ab''"
proof -
  define n where "n = unat (0x8000 OR (drop_bit 2 ns AND 0x3FFF :: u32))"
  have n: "32768 \<le> n" "n < 49152"
    using uuid_group_bounds(4) [of ns] by (simp_all add: n_def uuid_variant)
  then obtain s where hex: "hex n = hex_digit (n div 4096) # s"
    using hex_four [of n] by auto
  have "length (hex n) \<le> 4" using length_hex_le [of 4 n] n by simp
  moreover have "\<not> length (hex n) \<le> 3" using length_hex_le [of 3 n] n by simp
  ultimately have "hexpad 4 n = hex n" by (simp add: hexpad_def)
  moreover have "n div 4096 = 8 \<or> n div 4096 = 9 \<or> n div 4096 = 10 \<or> n div 4096 = 11"
    using div_le_mono [OF n(1), of 4096] less_mult_imp_div_less [of n 12 4096] n(2) by auto
  ultimately show ?thesis using hex unfolding n_def [symmetric] by (auto simp: hex_digit_def)
qed

lemma uuid_length:
  "length (uuid_v4 ns) =
     24 + max 12 (length (hex (unat ((ucast ns :: u64) * 6364136223846793005))))"
proof -
  have "unat (0x8000 OR (drop_bit 2 ns AND 0x3FFF)) < 16 ^ 4"
    using uuid_group_bounds(4) [of ns] by (simp add: uuid_variant)
  then show ?thesis
    using uuid_group_bounds [of ns] by (simp add: uuid_v4_def length_hexpad_fit length_hexpad [of 12])
qed

subsection \<open>Properties\<close>

text \<open>
  C39. The string \<open>hmac.sha256\<close> hands to Lua is well-formed UTF-8, and it determines the digest:
  two results are the same string if and only if the digests are the same bytes. But it is
  the digest itself only when every byte of it is below 0x80: each other byte takes two bytes.
  So \<open>base64.encode(hmac.sha256(m, k))\<close>, the signature the JWT plugin compares, is the base64 of
  the real digest exactly for the all-ASCII digests.
\<close>

theorem hmac_string_encoding:
  "utf8_valid (as_bytes (lua_hmac_sha256 mac m k)) \<and>
   (lua_hmac_sha256 mac m k = lua_hmac_sha256 mac' m' k' \<longleftrightarrow>
      mac (as_bytes k) (as_bytes m) = mac' (as_bytes k') (as_bytes m')) \<and>
   length (lua_hmac_sha256 mac m k) =
     length (mac (as_bytes k) (as_bytes m)) +
     length (filter (\<lambda>b. \<not> b < 0x80) (mac (as_bytes k) (as_bytes m))) \<and>
   (lua_base64_encode (lua_hmac_sha256 mac m k) = base64_encode (mac (as_bytes k) (as_bytes m))
      \<longleftrightarrow> list_all (\<lambda>b. b < 0x80) (mac (as_bytes k) (as_bytes m)))"
proof -
  have "lua_hmac_sha256 mac m k = lua_hmac_sha256 mac' m' k' \<longleftrightarrow>
      mac (as_bytes k) (as_bytes m) = mac' (as_bytes k') (as_bytes m')"
    unfolding lua_hmac_sha256_def hmac_sha256_raw_def of_bytes_eq_iff latin1_inj ..
  then show ?thesis
    by (auto simp: lua_hmac_sha256_def hmac_sha256_raw_def latin1_valid length_latin1
        lua_base64_encode_def list_all_iff latin1_ascii_iff [THEN iffD2]
        dest!: base64_encode_inj latin1_ascii_iff [THEN iffD1])
qed

text \<open>
  C40. The shape of \<open>uuid.v4()\<close>: five groups of hexadecimal digits, the third marked as version
  4, the fourth with the variant bits. The last group has the twelve digits of a UUID only when
  the 64-bit product fits in 48 bits; otherwise the string is longer than 36 characters. Two
  calls return the same id if and only if they read the same nanosecond count.
\<close>

theorem uuid_v4_shape:
  "(\<exists>a b c d e.
     uuid_v4 ns = a @ ''-'' @ b @ ''-'' @ c @ ''-'' @ d @ ''-'' @ e \<and>
     length a = 8 \<and> length b = 4 \<and> length c = 4 \<and> length d = 4 \<and> 12 \<le> length e \<and> length e \<le> 16 \<and>
     hd c = CHR ''4'' \<and> hd d \<in> set ''89ab'' \<and>
     set (a @ b @ c @ d @ e) \<subseteq> set ''0123456789abcdef'') \<and>
   (length (uuid_v4 ns) = 36 \<longleftrightarrow> unat ((ucast ns :: u64) * 6364136223846793005) < 2 ^ 48) \<and>
   (uuid_v4 ns = uuid_v4 ns' \<longleftrightarrow> ns = ns')"
proof (intro conjI)
  let ?p = "unat ((ucast ns :: u64) * 6364136223846793005)"
  let ?a = "hexpad 8 (unat ns)" and ?b = "hexpad 4 (unat (drop_bit 16 ns AND 0xFFFF))"
    and ?c = "hexpad 3 (unat (drop_bit 4 ns AND 0x0FFF))"
    and ?d = "hexpad 4 (unat (0x8000 OR (drop_bit 2 ns AND 0x3FFF)))" and ?e = "hexpad 12 ?p"
  have d: "unat (0x8000 OR (drop_bit 2 ns AND 0x3FFF)) < 16 ^ 4"
    using uuid_group_bounds(4) [of ns] by (simp add: uuid_variant)
  have "?p < 16 ^ 16" using unsigned_less [of "(ucast ns :: u64) * 6364136223846793005", where 'a = nat] by simp
  then have e: "length ?e \<le> 16" using length_hex_le [of 16 ?p] by (simp add: length_hexpad)
  show "\<exists>a b c d e.
     uuid_v4 ns = a @ ''-'' @ b @ ''-'' @ c @ ''-'' @ d @ ''-'' @ e \<and>
     length a = 8 \<and> length b = 4 \<and> length c = 4 \<and> length d = 4 \<and> 12 \<le> length e \<and> length e \<le> 16 \<and>
     hd c = CHR ''4'' \<and> hd d \<in> set ''89ab'' \<and>
     set (a @ b @ c @ d @ e) \<subseteq> set ''0123456789abcdef''"
    using d e uuid_group_bounds [of ns] uuid_variant_digit [of ns] hexpad_digits
    by (intro exI [of _ ?a] exI [of _ ?b] exI [of _ "CHR ''4'' # ?c"] exI [of _ ?d] exI [of _ ?e])
      (simp add: uuid_v4_def length_hexpad_fit length_hexpad [of 12])
  show "length (uuid_v4 ns) = 36 \<longleftrightarrow> ?p < 2 ^ 48"
    using length_hex_le [of 12 ?p] by (auto simp: uuid_length max_def)
  have "ns = ns'" if "uuid_v4 ns = uuid_v4 ns'"
  proof -
    have "take 8 (uuid_v4 n) = hexpad 8 (unat n)" for n
      using uuid_group_bounds(1) [of n] by (simp add: uuid_v4_def length_hexpad_fit)
    with that have "unhex (hexpad 8 (unat ns)) = unhex (hexpad 8 (unat ns'))" by metis
    then show ?thesis by (simp add: unhex_hexpad word_eqI_unat)
  qed
  then show "uuid_v4 ns = uuid_v4 ns' \<longleftrightarrow> ns = ns'" by blast
qed

end
