(* ===== verification/Globals.thy ===== *)
theory Globals
  imports Engine Json LuaUtil
begin

section \<open>What the registered globals compute (src/lua/engine.rs)\<close>

text \<open>
  The closures behind the globals, on converted arguments. \<open>mac\<close> is HMAC-SHA256 of the \<open>hmac\<close> and \<open>sha2\<close>
  crates, \<open>fmt\<close> is \<open>f64::to_string\<close>, \<open>ns\<close> the clock reading; a log call returns nothing.
\<close>

datatype 'n builtin_arg = Arg_Value "'n lua_value" | Arg_String string | Arg_Strings string string | Arg_None

fun run_builtin ::
    "(byte list \<Rightarrow> byte list \<Rightarrow> byte list) \<Rightarrow> ('n \<Rightarrow> string) \<Rightarrow> u32 \<Rightarrow> builtin \<Rightarrow> 'n builtin_arg \<Rightarrow>
      string option" where
  "run_builtin mac fmt ns Json_Encode (Arg_Value v) = Some (lua_value_to_json fmt v)"
| "run_builtin mac fmt ns Base64_Encode (Arg_String s) = Some (lua_base64_encode s)"
| "run_builtin mac fmt ns Base64_Decode (Arg_String s) = Some (lua_base64_decode s)"
| "run_builtin mac fmt ns Hmac_Sha256 (Arg_Strings msg secret) = Some (lua_hmac_sha256 mac msg secret)"
| "run_builtin mac fmt ns Uuid_V4 Arg_None = Some (uuid_v4 ns)"
| "run_builtin mac fmt ns _ _ = None"

end
