(* ===== verification/JsonHeap.thy ===== *)
theory JsonHeap
  imports Json
begin

section \<open>json.encode on shared and cyclic tables (src/lua/engine.rs)\<close>

text \<open>
  Lua tables are references. Here a table is a place of a heap, \<open>lua_value_to_json\<close> runs with a
  stack of a given number of frames, and \<open>None\<close> is a stack overflow. On tables that unfold to a
  tree the result is that of the encoder on trees; on a table that contains itself every stack
  overflows; and on tables without cycles some stack is large enough.
\<close>

datatype 'n lua_ref =
    RNil
  | RBoolean bool
  | RInteger "64 word"
  | RNumber 'n
  | RString "byte list"
  | RTable nat
  | ROther

record 'n lua_table =
  tb_gets :: "'n lua_ref option list"  \<comment> \<open>\<open>t.get(i)\<close> for \<open>i\<close> from 1 to \<open>raw_len\<close>\<close>
  tb_pairs :: "('n lua_ref \<times> 'n lua_ref) list"

type_synonym 'n lua_heap = "nat \<Rightarrow> 'n lua_table"

text \<open>The entries the loop over the sequence part visits: those whose \<open>get\<close> succeeds.\<close>

definition readable :: "'a option list \<Rightarrow> 'a list" where
  "readable xs = List.map_filter (\<lambda>x. x) xs"

definition member_text :: "string option \<Rightarrow> string option \<Rightarrow> string option" where
  "member_text k v = Option.bind k (\<lambda>ks. map_option (\<lambda>vs. ks @ '':'' @ vs) v)"

fun encode_with :: "nat \<Rightarrow> ('n \<Rightarrow> string) \<Rightarrow> 'n lua_heap \<Rightarrow> 'n lua_ref \<Rightarrow> string option" where
  "encode_with 0 fmt h v = None"
| "encode_with (Suc d) fmt h (RString s) =
     Some (if utf8_valid s then quoted (escape_quotes (of_bytes s)) else quoted [])"
| "encode_with (Suc d) fmt h (RInteger i) = Some (show_i64 i)"
| "encode_with (Suc d) fmt h (RNumber n) = Some (fmt n)"
| "encode_with (Suc d) fmt h (RBoolean b) = Some (show_bool b)"
| "encode_with (Suc d) fmt h RNil = Some ''null''"
| "encode_with (Suc d) fmt h (RTable a) =
     (if length (tb_gets (h a)) > 0 then
        map_option (\<lambda>ts. ''['' @ join '','' ts @ '']'')
          (those (map (encode_with d fmt h) (readable (tb_gets (h a)))))
      else
        map_option (\<lambda>ts. ''{'' @ join '','' ts @ ''}'')
          (those (map (\<lambda>(k, v). member_text (encode_with d fmt h k) (encode_with d fmt h v))
             (tb_pairs (h a)))))"
| "encode_with (Suc d) fmt h ROther = Some ''null''"

subsection \<open>Unfolding to a tree\<close>

fun unfold_with :: "nat \<Rightarrow> 'n lua_heap \<Rightarrow> 'n lua_ref \<Rightarrow> 'n lua_value option" where
  "unfold_with 0 h v = None"
| "unfold_with (Suc d) h (RString s) = Some (LString s)"
| "unfold_with (Suc d) h (RInteger i) = Some (LInteger i)"
| "unfold_with (Suc d) h (RNumber n) = Some (LNumber n)"
| "unfold_with (Suc d) h (RBoolean b) = Some (LBoolean b)"
| "unfold_with (Suc d) h RNil = Some LNil"
| "unfold_with (Suc d) h (RTable a) =
     (if length (tb_gets (h a)) > 0 then
        map_option (\<lambda>vs. LTable vs [])
          (those (map (\<lambda>x. case x of None \<Rightarrow> Some None | Some v \<Rightarrow> map_option Some (unfold_with d h v))
             (tb_gets (h a))))
      else
        map_option (LTable [])
          (those (map (\<lambda>(k, v). Option.bind (unfold_with d h k)
             (\<lambda>k'. map_option (Pair k') (unfold_with d h v))) (tb_pairs (h a)))))"
| "unfold_with (Suc d) h ROther = Some LOther"

lemma those_eq_None: "those xs = None \<longleftrightarrow> None \<in> set xs"
  by (induction xs) (auto split: option.split)

lemma those_eq_Some: "those xs = Some ys \<longleftrightarrow> xs = map Some ys"
  by (induction xs arbitrary: ys) (auto split: option.split)

lemma readable_simps [simp]:
  "readable [] = []" "readable (None # xs) = readable xs" "readable (Some x # xs) = x # readable xs"
  by (simp_all add: readable_def)

lemma those_gets:
  assumes "\<And>v t. f v = Some t \<Longrightarrow> g v = Some (e t)"
    and "those (map (\<lambda>x. case x of None \<Rightarrow> Some None | Some v \<Rightarrow> map_option Some (f v)) xs) = Some ts"
  shows "those (map g (readable xs)) = Some (concat (map (\<lambda>x. case x of Some v \<Rightarrow> [e v] | None \<Rightarrow> []) ts))
    \<and> length ts = length xs"
  using assms(2)
proof (induction xs arbitrary: ts)
  case (Cons x xs)
  then show ?case by (cases x) (auto simp: assms(1) split: option.splits)
qed simp

lemma those_pairs:
  assumes "\<And>v t. f v = Some t \<Longrightarrow> g v = Some (e t)"
    and "those (map (\<lambda>(k, v). Option.bind (f k) (\<lambda>k'. map_option (Pair k') (f v))) xs) = Some ts"
  shows "those (map (\<lambda>(k, v). member_text (g k) (g v)) xs) = Some (map (\<lambda>(k, v). e k @ '':'' @ e v) ts)"
  using assms(2)
proof (induction xs arbitrary: ts)
  case (Cons x xs)
  then show ?case by (cases x) (auto simp: assms(1) member_text_def split: option.splits bind_splits)
qed simp

text \<open>On what unfolds to a tree the code does what the encoder on trees does.\<close>

theorem encode_with_unfold:
  "unfold_with d h v = Some t \<Longrightarrow> encode_with d fmt h v = Some (lua_value_to_json fmt t)"
proof (induction d arbitrary: v t)
  case (Suc d)
  show ?case
  proof (cases v)
    case (RTable a)
    show ?thesis
    proof (cases "tb_gets (h a)")
      case Nil
      then obtain ts where ts: "those (map (\<lambda>(k, v). Option.bind (unfold_with d h k)
          (\<lambda>k'. map_option (Pair k') (unfold_with d h v))) (tb_pairs (h a))) = Some ts" "t = LTable [] ts"
        using Suc.prems RTable by auto
      from those_pairs [OF Suc.IH ts(1)] show ?thesis by (simp add: RTable Nil ts(2))
    next
      case (Cons x xs)
      then obtain ts where ts: "those (map (\<lambda>x. case x of None \<Rightarrow> Some None
          | Some v \<Rightarrow> map_option Some (unfold_with d h v)) (tb_gets (h a))) = Some ts" "t = LTable ts []"
        using Suc.prems RTable by (auto simp del: list.map those.simps)
      from those_gets [OF Suc.IH ts(1)] show ?thesis
        by (simp add: RTable Cons ts(2) del: those.simps list.map)
    qed
  qed (use Suc.prems in auto)
qed simp

subsection \<open>Cycles\<close>

text \<open>The values the encoder recurses on at a table, and the tables among them.\<close>

definition visited :: "'n lua_table \<Rightarrow> 'n lua_ref list" where
  "visited t =
     (if tb_gets t = [] then concat (map (\<lambda>(k, v). [k, v]) (tb_pairs t)) else readable (tb_gets t))"

definition visits :: "'n lua_heap \<Rightarrow> (nat \<times> nat) set" where
  "visits h = {(a, b). RTable b \<in> set (visited (h a))}"

lemma member_text_eq_None: "member_text k v = None \<longleftrightarrow> k = None \<or> v = None"
  by (cases k; cases v) (simp_all add: member_text_def)

lemma encode_table_None:
  "encode_with (Suc d) fmt h (RTable a) = None \<longleftrightarrow>
     (\<exists>v \<in> set (visited (h a)). encode_with d fmt h v = None)"
proof -
  have image: "None \<in> f ` S \<longleftrightarrow> (\<exists>v \<in> S. f v = None)" for f :: "'z \<Rightarrow> string option" and S
    by (auto simp: image_iff eq_commute)
  have pair: "(case p of (k, v) \<Rightarrow> member_text (encode_with d fmt h k) (encode_with d fmt h v)) = None \<longleftrightarrow>
    (\<exists>v \<in> set (case p of (k, v) \<Rightarrow> [k, v]). encode_with d fmt h v = None)" for p
    by (cases p) (simp add: member_text_eq_None)
  have "(None \<in> (\<lambda>(k, v). member_text (encode_with d fmt h k) (encode_with d fmt h v)) ` set ps) \<longleftrightarrow>
    (\<exists>v \<in> set (concat (map (\<lambda>(k, v). [k, v]) ps)). encode_with d fmt h v = None)" for ps
    unfolding image pair set_concat set_map bex_UN image_image by simp
  moreover have "None \<in> encode_with d fmt h ` S \<longleftrightarrow> (\<exists>v \<in> S. encode_with d fmt h v = None)" for S
    by (rule image)
  ultimately show ?thesis
    by (cases "tb_gets (h a) = []") (simp_all only: visited_def those_eq_None encode_with.simps
        option.map_disc_iff set_map length_greater_0_conv simp_thms if_True if_False)
qed

text \<open>A table that contains itself, through any number of others, overflows every stack.\<close>

theorem encode_cyclic_overflows:
  assumes "(a, a) \<in> (visits h)\<^sup>+"
  shows "encode_with d fmt h (RTable a) = None"
  using assms
proof (induction d arbitrary: a)
  case (Suc d)
  from tranclD [OF Suc.prems] obtain b where ab: "(a, b) \<in> visits h" and ba: "(b, a) \<in> (visits h)\<^sup>*"
    by blast
  from ba ab have "(b, b) \<in> (visits h)\<^sup>+" by (rule rtrancl_into_trancl1)
  from Suc.IH [OF this] ab show ?case
    unfolding encode_table_None visits_def by blast
qed simp

text \<open>Without cycles, more precisely if no path of tables goes on for ever, some stack suffices.\<close>

lemma encode_with_mono:
  "encode_with d fmt h v \<noteq> None \<Longrightarrow> d \<le> d' \<Longrightarrow> encode_with d' fmt h v \<noteq> None"
proof (induction d arbitrary: v d')
  case (Suc d)
  then obtain e where e: "d' = Suc e" "d \<le> e" by (cases d') auto
  show ?case
  proof (cases v)
    case (RTable a)
    with Suc e show ?thesis unfolding RTable e encode_table_None by metis
  qed (simp_all add: e)
qed simp

lemma enough_for_all:
  assumes "\<And>v. v \<in> set vs \<Longrightarrow> \<exists>d. encode_with d fmt h v \<noteq> None"
  shows "\<exists>d. \<forall>v \<in> set vs. encode_with d fmt h v \<noteq> None"
  using assms
proof (induction vs)
  case (Cons v vs)
  then obtain d d' where "encode_with d fmt h v \<noteq> None" "\<forall>v \<in> set vs. encode_with d' fmt h v \<noteq> None"
    by (meson list.set_intros)
  then show ?case using encode_with_mono [of _ fmt h _ "max d d'"]
    by (intro exI [of _ "max d d'"]) (metis max.cobounded1 max.cobounded2 set_ConsD)
qed simp

theorem encode_acyclic_returns:
  assumes "wf ((visits h)\<inverse>)"
  shows "\<exists>d. encode_with d fmt h v \<noteq> None"
proof -
  have table: "\<exists>d. encode_with d fmt h (RTable a) \<noteq> None" for a
    using assms
  proof (induction a rule: wf_induct_rule)
    case (less a)
    have "\<exists>d. encode_with d fmt h v \<noteq> None" if "v \<in> set (visited (h a))" for v
    proof (cases v)
      case (RTable b)
      with that have "(b, a) \<in> (visits h)\<inverse>" by (simp add: visits_def)
      with less.IH RTable show ?thesis by blast
    qed (rule exI [of _ 1], simp)+
    from enough_for_all [OF this] obtain d where "\<forall>v \<in> set (visited (h a)). encode_with d fmt h v \<noteq> None"
      by blast
    then have "encode_with (Suc d) fmt h (RTable a) \<noteq> None" unfolding encode_table_None by blast
    then show ?case by blast
  qed
  show ?thesis
  proof (cases v)
    case (RTable a)
    then show ?thesis using table by blast
  qed (rule exI [of _ 1], simp)+
qed

end
