(* ===== verification/SipHash.thy ===== *)
theory SipHash
  imports Prelude
begin

section \<open>The default hasher of the standard library\<close>

text \<open>
  \<open>ConsistentHash\<close> hashes keys with \<open>DefaultHasher::new()\<close>, which is SipHash-1-3 with both
  keys zero; hashing a \<open>str\<close> feeds its bytes and then one byte 0xFF. The definitions follow the
  algorithm on 64-bit words.
\<close>

record sip_state =
  sip_v0 :: u64
  sip_v1 :: u64
  sip_v2 :: u64
  sip_v3 :: u64

definition rotl64 :: "nat \<Rightarrow> u64 \<Rightarrow> u64" where
  "rotl64 k w = push_bit k w OR drop_bit (64 - k) w"

definition sip_round :: "sip_state \<Rightarrow> sip_state" where
  "sip_round s =
     (let v0 = sip_v0 s + sip_v1 s;
          v1 = rotl64 13 (sip_v1 s) XOR v0;
          v0 = rotl64 32 v0;
          v2 = sip_v2 s + sip_v3 s;
          v3 = rotl64 16 (sip_v3 s) XOR v2;
          v0 = v0 + v3;
          v3 = rotl64 21 v3 XOR v0;
          v2 = v2 + v1;
          v1 = rotl64 17 v1 XOR v2;
          v2 = rotl64 32 v2
      in \<lparr>sip_v0 = v0, sip_v1 = v1, sip_v2 = v2, sip_v3 = v3\<rparr>)"

definition sip_init :: sip_state where
  "sip_init = \<lparr>sip_v0 = 0x736f6d6570736575, sip_v1 = 0x646f72616e646f6d,
               sip_v2 = 0x6c7967656e657261, sip_v3 = 0x7465646279746573\<rparr>"

definition sip_compress :: "u64 \<Rightarrow> sip_state \<Rightarrow> sip_state" where
  "sip_compress m s =
     (let s1 = sip_round (s\<lparr>sip_v3 := sip_v3 s XOR m\<rparr>) in s1\<lparr>sip_v0 := sip_v0 s1 XOR m\<rparr>)"

fun le_word :: "byte list \<Rightarrow> u64" where
  "le_word [] = 0"
| "le_word (b # bs) = ucast b OR push_bit 8 (le_word bs)"

text \<open>
  Whole words of eight bytes first; the rest goes into the last word, with the length of the
  input modulo 256 in its top byte.
\<close>

fun sip_bytes :: "nat \<Rightarrow> byte list \<Rightarrow> sip_state \<Rightarrow> sip_state" where
  "sip_bytes len (a # b # c # d # e # f # g # h # rest) s =
     sip_bytes len rest (sip_compress (le_word [a, b, c, d, e, f, g, h]) s)"
| "sip_bytes len rest s = sip_compress (le_word rest OR push_bit 56 (of_nat len)) s"

definition sip_finish :: "sip_state \<Rightarrow> u64" where
  "sip_finish s =
     (let s3 = sip_round (sip_round (sip_round (s\<lparr>sip_v2 := sip_v2 s XOR 0xFF\<rparr>)))
      in sip_v0 s3 XOR sip_v1 s3 XOR sip_v2 s3 XOR sip_v3 s3)"

definition siphash13 :: "byte list \<Rightarrow> u64" where
  "siphash13 bs = sip_finish (sip_bytes (length bs) bs sip_init)"

end
