(* ===== verification/Balancer.thy ===== *)
theory Balancer
  imports SipHash "HOL-Library.Multiset"
begin

section \<open>Load balancers (src/upstream/balancer.rs)\<close>

text \<open>
  \<open>Target\<close>, the three balancers and the factory. The flags and counters of a target are shared
  atomics; the model keeps their current values in the target, and an operation returns the
  balancer with the values it leaves. The locale \<open>balancer\<close> is the contract of the trait
  \<open>Balancer\<close> that the upstream pool relies on, interpreted on each implementation and on the
  trait object.
\<close>

record target =
  url :: string
  alive :: bool
  active :: usize

definition Target_new :: "string \<Rightarrow> target" where
  "Target_new u = \<lparr>url = u, alive = True, active = 0\<rparr>"

record round_robin =
  rr_targets :: "target list"
  rr_counter :: usize

record least_conn =
  lc_targets :: "target list"

record consistent_hash =
  ch_targets :: "target list"

definition RoundRobin_new :: "target list \<Rightarrow> round_robin" where
  "RoundRobin_new ts = \<lparr>rr_targets = ts, rr_counter = 0\<rparr>"

definition LeastConn_new :: "target list \<Rightarrow> least_conn" where
  "LeastConn_new ts = \<lparr>lc_targets = ts\<rparr>"

definition ConsistentHash_new :: "target list \<Rightarrow> consistent_hash" where
  "ConsistentHash_new ts = \<lparr>ch_targets = ts\<rparr>"

text \<open>\<open>fetch_add\<close> returns the old counter and wraps around.\<close>

definition round_robin_next :: "string option \<Rightarrow> round_robin \<Rightarrow> string option \<times> round_robin" where
  "round_robin_next key b =
     (let al = filter alive (rr_targets b) in
      if al = [] then (None, b)
      else
        (let idx = unat (rr_counter b) mod length al
         in (Some (url (al ! idx)), b\<lparr>rr_counter := rr_counter b + 1\<rparr>)))"

definition least_conn_next :: "string option \<Rightarrow> least_conn \<Rightarrow> string option \<times> least_conn" where
  "least_conn_next key b =
     (map_option url (min_by_key active (filter alive (lc_targets b))), b)"

definition hash_key :: "string \<Rightarrow> u64" where
  "hash_key key = siphash13 (as_bytes key @ [0xFF])"

definition consistent_hash_next ::
    "string option \<Rightarrow> consistent_hash \<Rightarrow> string option \<times> consistent_hash" where
  "consistent_hash_next key b =
     (let al = filter alive (ch_targets b) in
      if al = [] then (None, b)
      else
        (let h = hash_key (case key of Some k \<Rightarrow> k | None \<Rightarrow> ''default'');
             idx = unat h mod length al
         in (Some (url (al ! idx)), b)))"

text \<open>\<open>Box<dyn Balancer>\<close> and \<open>make_balancer\<close>.\<close>

datatype dyn_balancer =
    Dyn_Round_Robin round_robin
  | Dyn_Least_Conn least_conn
  | Dyn_Consistent_Hash consistent_hash

fun dyn_next :: "string option \<Rightarrow> dyn_balancer \<Rightarrow> string option \<times> dyn_balancer" where
  "dyn_next key (Dyn_Round_Robin b) = apsnd Dyn_Round_Robin (round_robin_next key b)"
| "dyn_next key (Dyn_Least_Conn b) = apsnd Dyn_Least_Conn (least_conn_next key b)"
| "dyn_next key (Dyn_Consistent_Hash b) = apsnd Dyn_Consistent_Hash (consistent_hash_next key b)"

fun dyn_targets :: "dyn_balancer \<Rightarrow> target list" where
  "dyn_targets (Dyn_Round_Robin b) = rr_targets b"
| "dyn_targets (Dyn_Least_Conn b) = lc_targets b"
| "dyn_targets (Dyn_Consistent_Hash b) = ch_targets b"

definition make_balancer :: "string \<Rightarrow> target list \<Rightarrow> dyn_balancer" where
  "make_balancer l ts =
     (if l = ''least_conn'' then Dyn_Least_Conn (LeastConn_new ts)
      else if l = ''consistent_hash'' then Dyn_Consistent_Hash (ConsistentHash_new ts)
      else Dyn_Round_Robin (RoundRobin_new ts))"

text \<open>The health check stores a flag in the target at a position.\<close>

definition store_alive :: "nat \<Rightarrow> bool \<Rightarrow> target list \<Rightarrow> target list" where
  "store_alive i a ts = (if i < length ts then ts[i := (ts ! i)\<lparr>alive := a\<rparr>] else ts)"

fun dyn_store_alive :: "nat \<Rightarrow> bool \<Rightarrow> dyn_balancer \<Rightarrow> dyn_balancer" where
  "dyn_store_alive i a (Dyn_Round_Robin b) =
     Dyn_Round_Robin (b\<lparr>rr_targets := store_alive i a (rr_targets b)\<rparr>)"
| "dyn_store_alive i a (Dyn_Least_Conn b) =
     Dyn_Least_Conn (b\<lparr>lc_targets := store_alive i a (lc_targets b)\<rparr>)"
| "dyn_store_alive i a (Dyn_Consistent_Hash b) =
     Dyn_Consistent_Hash (b\<lparr>ch_targets := store_alive i a (ch_targets b)\<rparr>)"

subsection \<open>The contract of the trait\<close>

text \<open>A sequence of selections, each on the balancer the one before has left.\<close>

fun serve :: "('k \<Rightarrow> 'b \<Rightarrow> 'r \<times> 'b) \<Rightarrow> 'k list \<Rightarrow> 'b \<Rightarrow> 'r list \<times> 'b" where
  "serve nxt [] b = ([], b)"
| "serve nxt (k # ks) b = (case nxt k b of (u, b') \<Rightarrow> apfst (Cons u) (serve nxt ks b'))"

locale balancer =
  fixes next_target :: "string option \<Rightarrow> 'b \<Rightarrow> string option \<times> 'b"
    and targets_of :: "'b \<Rightarrow> target list"
  assumes next_keeps: "targets_of (snd (next_target key b)) = targets_of b"
    and next_sound: "fst (next_target key b) = Some u \<Longrightarrow> \<exists>t \<in> set (targets_of b). alive t \<and> url t = u"
    and next_complete: "fst (next_target key b) = None \<longleftrightarrow> \<not> (\<exists>t \<in> set (targets_of b). alive t)"
begin

lemma serve_keeps: "targets_of (snd (serve next_target ks b)) = targets_of b"
proof (induction ks arbitrary: b)
  case (Cons k ks)
  then show ?case using next_keeps [of k b] by (auto split: prod.splits)
qed simp

lemma serve_sound:
  "Some u \<in> set (fst (serve next_target ks b)) \<Longrightarrow> \<exists>t \<in> set (targets_of b). alive t \<and> url t = u"
proof (induction ks arbitrary: b)
  case (Cons k ks)
  obtain v b' where nxt: "next_target k b = (v, b')" by (cases "next_target k b")
  then have "targets_of b' = targets_of b" using next_keeps [of k b] by simp
  with Cons.prems nxt show ?case using next_sound [of k b u] Cons.IH [of b'] by auto
qed simp

lemma serve_available:
  "\<exists>t \<in> set (targets_of b). alive t \<Longrightarrow> None \<notin> set (fst (serve next_target ks b))"
proof (induction ks arbitrary: b)
  case (Cons k ks)
  obtain v b' where nxt: "next_target k b = (v, b')" by (cases "next_target k b")
  then have "targets_of b' = targets_of b" using next_keeps [of k b] by simp
  with Cons.prems nxt show ?case using next_complete [of k b] Cons.IH [of b'] by auto
qed simp

end

lemma filter_alive_Nil: "filter alive ts = [] \<longleftrightarrow> \<not> (\<exists>t \<in> set ts. alive t)"
  by (auto simp: filter_empty_conv)

lemma nth_filter_alive:
  "filter alive ts \<noteq> [] \<Longrightarrow> filter alive ts ! (n mod length (filter alive ts)) \<in> {t \<in> set ts. alive t}"
  using nth_mem [of "n mod length (filter alive ts)" "filter alive ts"] by auto

interpretation rr: balancer round_robin_next rr_targets
  by unfold_locales
    (use nth_filter_alive in \<open>fastforce simp: round_robin_next_def Let_def filter_alive_Nil split: if_splits\<close>)+

interpretation lc: balancer least_conn_next lc_targets
  by unfold_locales
    (auto simp: least_conn_next_def filter_alive_Nil dest!: min_by_key_mem)

interpretation ch: balancer consistent_hash_next ch_targets
  by unfold_locales
    (use nth_filter_alive in \<open>fastforce simp: consistent_hash_next_def Let_def filter_alive_Nil split: if_splits\<close>)+

interpretation dyn: balancer dyn_next dyn_targets
proof
  show "dyn_targets (snd (dyn_next key b)) = dyn_targets b" for key b
    by (cases b) (simp_all add: rr.next_keeps lc.next_keeps ch.next_keeps)
  show "\<exists>t \<in> set (dyn_targets b). alive t \<and> url t = u" if "fst (dyn_next key b) = Some u" for key b u
    using that by (cases b) (auto dest: rr.next_sound lc.next_sound ch.next_sound)
  show "fst (dyn_next key b) = None \<longleftrightarrow> \<not> (\<exists>t \<in> set (dyn_targets b). alive t)" for key b
    by (cases b) (simp_all add: rr.next_complete lc.next_complete ch.next_complete)
qed

subsection \<open>Round robin\<close>

definition rr_alive :: "round_robin \<Rightarrow> target list" where
  "rr_alive b = filter alive (rr_targets b)"

definition rr_index :: "round_robin \<Rightarrow> nat" where
  "rr_index b = unat (rr_counter b) mod length (rr_alive b)"

lemma round_robin_next_alive:
  "rr_alive b \<noteq> [] \<Longrightarrow> round_robin_next k b =
     (Some (url (rr_alive b ! rr_index b)), b\<lparr>rr_counter := rr_counter b + 1\<rparr>)"
  by (simp add: round_robin_next_def rr_alive_def rr_index_def Let_def)

lemma rr_alive_counter [simp]: "rr_alive (b\<lparr>rr_counter := c\<rparr>) = rr_alive b"
  by (simp add: rr_alive_def)

lemma round_robin_serve:
  assumes "rr_alive b \<noteq> []"
  shows "serve round_robin_next ks b =
    (map (\<lambda>i. Some (url (rr_alive b ! (unat (rr_counter b + of_nat i) mod length (rr_alive b)))))
       [0..<length ks],
     b\<lparr>rr_counter := rr_counter b + of_nat (length ks)\<rparr>)"
  using assms
proof (induction ks arbitrary: b)
  case (Cons k ks)
  let ?b = "b\<lparr>rr_counter := rr_counter b + 1\<rparr>"
  have upt: "[0..<length (k # ks)] = 0 # map Suc [0..<length ks]"
    by (simp add: map_Suc_upt upt_conv_Cons del: upt_Suc)
  show ?case
    unfolding upt using Cons.prems Cons.IH [of ?b]
    by (simp add: round_robin_next_alive rr_index_def comp_def add.assoc)
qed simp

text \<open>One round over \<open>n\<close> targets visits each once, wherever it starts.\<close>

lemma mset_round:
  assumes "0 < n"
  shows "mset (map (\<lambda>i. (c + i) mod n) [0..<n]) = mset [0..<n]"
proof -
  have "map (\<lambda>i. (c + i) mod n) [0..<n] = rotate c [0..<n]"
    by (rule nth_equalityI) (simp_all add: nth_rotate assms)
  moreover have "mset (rotate c xs) = mset xs" for xs :: "nat list"
    by (metis append_take_drop_id mset_append rotate_drop_take union_commute)
  ultimately show ?thesis by metis
qed

lemma mset_rounds:
  assumes "0 < n"
  shows "mset (map (\<lambda>i. (c + i) mod n) [0..<m * n]) = repeat_mset m (mset [0..<n])"
proof (induction m)
  case (Suc m)
  have split: "[0..<Suc m * n] = [0..<m * n] @ map (\<lambda>i. m * n + i) [0..<n]"
    using upt_add_eq_append [of 0 "m * n" n] by (simp add: map_add_upt add.commute)
  have "mset (map (\<lambda>i. (c + (m * n + i)) mod n) [0..<n]) = mset [0..<n]"
    using mset_round [OF assms, of "c + m * n"] by (simp only: add.assoc)
  then show ?case
    by (simp only: split map_append mset_append map_map comp_def Suc repeat_mset_Suc
        add.commute [of "mset [0..<n]"])
qed simp

lemma unat_counter_add:
  fixes c :: u64
  assumes "unat c + i < 2 ^ 64"
  shows "unat (c + of_nat i) = unat c + i"
proof -
  have "unat (of_nat i :: u64) = i" using assms by (simp add: unat_of_nat)
  then show ?thesis using assms by (simp add: unat_word_ariths)
qed

lemma round_robin_fairness:
  assumes alive: "rr_alive b \<noteq> []"
    and len: "length ks = m * length (rr_alive b)"
    and no_wrap: "unat (rr_counter b) + length ks \<le> 2 ^ 64"
  shows "mset (fst (serve round_robin_next ks b)) = repeat_mset m (mset (map (Some \<circ> url) (rr_alive b)))"
proof -
  let ?al = "rr_alive b" and ?c = "unat (rr_counter b)"
  let ?n = "length ?al"
  have "fst (serve round_robin_next ks b) =
      map (\<lambda>j. Some (url (?al ! j))) (map (\<lambda>i. (?c + i) mod ?n) [0..<m * ?n])"
    using no_wrap len by (simp add: round_robin_serve [OF alive] unat_counter_add)
  then have "mset (fst (serve round_robin_next ks b)) =
      image_mset (\<lambda>j. Some (url (?al ! j))) (repeat_mset m (mset [0..<?n]))"
    using mset_rounds [of ?n ?c m] alive by (simp only: mset_map) simp
  also have "\<dots> = repeat_mset m (mset (map (\<lambda>j. Some (url (?al ! j))) [0..<?n]))"
    by (induction m) simp_all
  also have "map (\<lambda>j. Some (url (?al ! j))) [0..<?n] = map (Some \<circ> url) ?al"
    by (rule nth_equalityI) simp_all
  finally show ?thesis .
qed

subsection \<open>Least connections\<close>

text \<open>The chosen target: the first of the live ones with the least count.\<close>

definition first_least :: "target list \<Rightarrow> target \<Rightarrow> bool" where
  "first_least ts t =
     (\<exists>pre post. ts = pre @ t # post \<and> alive t \<and>
        list_all (\<lambda>x. \<not> alive x \<or> active t < active x) pre \<and>
        list_all (\<lambda>x. \<not> alive x \<or> active t \<le> active x) post)"

lemma min_alive_first_least:
  "min_by_key active (filter alive ts) = Some t \<Longrightarrow> first_least ts t"
proof (induction ts arbitrary: t)
  case (Cons x ts)
  show ?case
  proof (cases "alive x")
    case False
    with Cons obtain pre post where "ts = pre @ t # post" "alive t"
      "list_all (\<lambda>x. \<not> alive x \<or> active t < active x) pre"
      "list_all (\<lambda>x. \<not> alive x \<or> active t \<le> active x) post"
      by (auto simp: first_least_def)
    with False show ?thesis unfolding first_least_def by (intro exI [of _ "x # pre"] exI [of _ post]) simp
  next
    case True
    show ?thesis
    proof (cases "t = x \<and> (\<forall>y \<in> set ts. alive y \<longrightarrow> active x \<le> active y)")
      case True
      with \<open>alive x\<close> show ?thesis
        unfolding first_least_def by (intro exI [of _ "[]"] exI [of _ ts]) (auto simp: list_all_iff)
    next
      case False
      obtain y where y: "min_by_key active (filter alive ts) = Some y"
      proof (cases "min_by_key active (filter alive ts)")
        case None
        with Cons.prems \<open>alive x\<close> have "t = x" by simp
        moreover from None have "\<not> (\<exists>y \<in> set ts. alive y)" by (simp add: filter_empty_conv)
        ultimately show ?thesis using False by blast
      qed
      have least: "\<And>z. z \<in> set ts \<Longrightarrow> alive z \<Longrightarrow> active y \<le> active z"
        using min_by_key_least [OF y] by simp
      have "\<not> active x \<le> active y"
      proof
        assume "active x \<le> active y"
        with Cons.prems \<open>alive x\<close> y have "t = x" by simp
        with False least \<open>active x \<le> active y\<close> show False by (auto intro: order.trans)
      qed
      with Cons.prems \<open>alive x\<close> y have "t = y" and lt: "active y < active x" by auto
      with Cons.IH y obtain pre post where "ts = pre @ t # post" "alive t"
        "list_all (\<lambda>x. \<not> alive x \<or> active t < active x) pre"
        "list_all (\<lambda>x. \<not> alive x \<or> active t \<le> active x) post"
        by (auto simp: first_least_def)
      with lt \<open>t = y\<close> show ?thesis
        unfolding first_least_def by (intro exI [of _ "x # pre"] exI [of _ post]) simp
    qed
  qed
qed simp

lemma least_conn_idle:
  assumes "\<And>t. t \<in> set (lc_targets b) \<Longrightarrow> active t = 0"
  shows "least_conn_next k b = (map_option url (find alive (lc_targets b)), b)"
proof -
  have find: "min_by_key active (filter alive ts) = find alive ts" if "\<And>t. t \<in> set ts \<Longrightarrow> active t = 0" for ts
    using that by (induction ts) (auto split: option.splits dest!: min_by_key_mem)
  show ?thesis by (simp add: least_conn_next_def find [OF assms])
qed

subsection \<open>Storing a health result\<close>

lemma length_store_alive [simp]: "length (store_alive i a ts) = length ts"
  by (simp add: store_alive_def)

lemma map_store_alive [simp]: "map url (store_alive i a ts) = map url ts" "map active (store_alive i a ts) = map active ts"
  by (simp_all add: store_alive_def map_update) (metis list_update_id map_update)+

lemma store_alive_nth:
  "j < length ts \<Longrightarrow> store_alive i a ts ! j = (if i = j then (ts ! j)\<lparr>alive := a\<rparr> else ts ! j)"
  by (auto simp: store_alive_def nth_list_update)

lemma dyn_targets_store [simp]: "dyn_targets (dyn_store_alive i a b) = store_alive i a (dyn_targets b)"
  by (cases b) simp_all

subsection \<open>Consistent hashing\<close>

lemma consistent_hash_next_alive:
  "filter alive (ch_targets b) \<noteq> [] \<Longrightarrow> consistent_hash_next (Some k) b =
     (Some (url (filter alive (ch_targets b) !
        (unat (hash_key k) mod length (filter alive (ch_targets b))))), b)"
  by (simp add: consistent_hash_next_def Let_def)

lemma filter_alive_store_dead:
  assumes "list_all alive ts" and "j < length ts"
  shows "filter alive (store_alive j False ts) = take j ts @ drop (Suc j) ts"
proof -
  have upd: "store_alive j False ts = take j ts @ (ts ! j)\<lparr>alive := False\<rparr> # drop (Suc j) ts"
    using assms(2) by (simp add: store_alive_def upd_conv_take_nth_drop)
  have "filter alive (take j ts) = take j ts" and "filter alive (drop (Suc j) ts) = drop (Suc j) ts"
    using assms(1) by (auto simp: list_all_iff filter_id_conv dest: in_set_takeD in_set_dropD)
  then show ?thesis by (simp add: upd)
qed

subsection \<open>Properties\<close>

text \<open>
  C10. The contract of \<open>Balancer::next\<close> for every implementation, behind the trait object: the
  targets do not change, what is returned is the URL of a live target, and \<open>None\<close> means exactly
  that no target is alive. In particular no implementation indexes out of range.
\<close>

theorem balancer_next_contract:
  "dyn_targets (snd (dyn_next key b)) = dyn_targets b \<and>
   (case fst (dyn_next key b) of
      Some u \<Rightarrow> \<exists>t \<in> set (dyn_targets b). alive t \<and> url t = u
    | None \<Rightarrow> \<not> (\<exists>t \<in> set (dyn_targets b). alive t))"
  using dyn.next_keeps [of key b] dyn.next_sound [of key b] dyn.next_complete [of key b]
  by (auto split: option.split)

text \<open>
  C11. Round robin is fair: while the counter does not wrap around, \<open>m\<close> times as many requests as
  there are live targets are spread so that each of them gets exactly \<open>m\<close>.
\<close>

theorem round_robin_fair:
  assumes "rr_alive b \<noteq> []"
    and "length ks = m * length (rr_alive b)"
    and "unat (rr_counter b) + length ks \<le> 2 ^ 64"
  shows "mset (fst (serve round_robin_next ks b)) =
    repeat_mset m (mset (map (Some \<circ> url) (rr_alive b)))"
  using assms by (rule round_robin_fairness)

theorem round_robin_fair_witness:
  "mset (fst (serve round_robin_next [None, None, None, None]
      (RoundRobin_new [Target_new ''http://a'', Target_new ''http://b'']))) =
    repeat_mset 2 (mset [Some ''http://a'', Some ''http://b''])"
proof -
  let ?b = "RoundRobin_new [Target_new ''http://a'', Target_new ''http://b'']"
  have al: "rr_alive ?b = [Target_new ''http://a'', Target_new ''http://b'']"
    by (simp add: rr_alive_def RoundRobin_new_def Target_new_def)
  show ?thesis
    using round_robin_fair [of ?b "[None, None, None, None]" 2] unfolding al
    by (simp add: RoundRobin_new_def Target_new_def)
qed

text \<open>
  Two consecutive round-robin selections go to neighbouring live targets, with one exception:
  when the counter wraps around and the number of live targets does not divide 2 to the 64, the
  order restarts at the first target.
\<close>

theorem round_robin_neighbours:
  assumes "rr_alive b \<noteq> []"
  shows "rr_index (snd (round_robin_next k b)) = Suc (rr_index b) mod length (rr_alive b) \<longleftrightarrow>
    (rr_counter b \<noteq> - 1 \<or> length (rr_alive b) dvd 2 ^ 64)"
proof -
  let ?n = "length (rr_alive b)" and ?c = "rr_counter b"
  have next_index: "rr_index (snd (round_robin_next k b)) = unat (?c + 1) mod ?n"
    using assms by (simp add: round_robin_next_alive rr_index_def)
  have suc: "Suc (rr_index b) mod ?n = Suc (unat ?c) mod ?n"
    by (simp add: rr_index_def mod_Suc_eq)
  show ?thesis
  proof (cases "?c = - 1")
    case True
    have "unat (- 1 :: u64) = 2 ^ 64 - 1" by (simp add: unsigned_minus_1_eq_mask mask_eq_exp_minus_1)
    with True have "Suc (unat ?c) = 2 ^ 64" by simp
    moreover have "unat (?c + 1) = 0" using True by simp
    ultimately show ?thesis unfolding next_index suc using True by (auto simp: dvd_eq_mod_eq_0)
  next
    case False
    have "unat ?c \<noteq> 2 ^ 64 - 1"
      using False word_eqI_unat [of ?c "- 1"] by (auto simp: unsigned_minus_1_eq_mask mask_eq_exp_minus_1)
    moreover have "unat ?c < 2 ^ 64" using unsigned_less [of ?c, where 'a = nat] by simp
    ultimately have "unat (?c + 1) = Suc (unat ?c)" using unat_counter_add [of ?c 1] by simp
    with False show ?thesis unfolding next_index suc by simp
  qed
qed

theorem round_robin_neighbours_witness:
  "\<not> rr_index (snd (round_robin_next None
       \<lparr>rr_targets = map Target_new [''http://a'', ''http://b'', ''http://c''], rr_counter = - 1\<rparr>)) =
     Suc (rr_index \<lparr>rr_targets = map Target_new [''http://a'', ''http://b'', ''http://c''],
                   rr_counter = - 1\<rparr>) mod 3"
proof -
  let ?b = "\<lparr>rr_targets = map Target_new [''http://a'', ''http://b'', ''http://c''], rr_counter = - 1 :: u64\<rparr>"
  have al: "rr_alive ?b = map Target_new [''http://a'', ''http://b'', ''http://c'']"
    by (simp add: rr_alive_def Target_new_def)
  have "\<not> (3 :: nat) dvd 2 ^ 64" by (simp add: dvd_eq_mod_eq_0)
  moreover have "length (map Target_new [''http://a'', ''http://b'', ''http://c'']) = 3" by simp
  ultimately have ndvd: "\<not> length (map Target_new [''http://a'', ''http://b'', ''http://c'']) dvd 2 ^ 64"
    by (simp only: not_False_eq_True)
  have ne: "rr_alive ?b \<noteq> []" unfolding al by simp
  have "\<not> rr_index (snd (round_robin_next None ?b)) = Suc (rr_index ?b) mod length (rr_alive ?b)"
    using round_robin_neighbours [OF ne, of None] ndvd unfolding al by simp
  then show ?thesis unfolding al by simp
qed

text \<open>
  C21. Least connections: the selection is the URL of the first live target with the least
  connection count; there is none iff no target is alive; and no counter is changed, so as long
  as nothing else counts connections the first live target gets every request.
\<close>

theorem least_conn_selects:
  "snd (least_conn_next k b) = b \<and>
   (case fst (least_conn_next k b) of
      Some u \<Rightarrow> \<exists>t. first_least (lc_targets b) t \<and> url t = u
    | None \<Rightarrow> \<not> (\<exists>t \<in> set (lc_targets b). alive t)) \<and>
   (if list_all (\<lambda>t. active t = 0) (lc_targets b)
    then fst (serve least_conn_next ks b) = replicate (length ks) (map_option url (find alive (lc_targets b)))
    else True)"
proof -
  have "case fst (least_conn_next k b) of
      Some u \<Rightarrow> \<exists>t. first_least (lc_targets b) t \<and> url t = u
    | None \<Rightarrow> \<not> (\<exists>t \<in> set (lc_targets b). alive t)"
    by (auto simp: least_conn_next_def filter_alive_Nil split: option.split dest: min_alive_first_least)
  moreover have "fst (serve least_conn_next ks b) =
      replicate (length ks) (map_option url (find alive (lc_targets b)))"
    if "list_all (\<lambda>t. active t = 0) (lc_targets b)" for ks
  proof (induction ks)
    case (Cons k ks)
    have "least_conn_next k b = (map_option url (find alive (lc_targets b)), b)"
      using that by (intro least_conn_idle) (simp add: list_all_iff)
    with Cons show ?case by simp
  qed simp
  ultimately show ?thesis by (simp add: least_conn_next_def)
qed

text \<open>
  C20. Hashing is sticky, but not consistent: while the same targets are alive a key always gets
  the same target, and when one of \<open>n\<close> live targets dies, a key that another target served
  keeps its target exactly when its hash modulo \<open>n - 1\<close> happens to be the new position of that
  target.
\<close>

theorem consistent_hash_remap_iff:
  assumes "list_all alive ts" and "distinct (map url ts)" and "d < length ts"
    and "i = unat (hash_key k) mod length ts" and "i \<noteq> d"
  shows "fst (consistent_hash_next (Some k) \<lparr>ch_targets = store_alive d False ts\<rparr>) =
      fst (consistent_hash_next (Some k) \<lparr>ch_targets = ts\<rparr>) \<longleftrightarrow>
    unat (hash_key k) mod (length ts - 1) = (if d < i then i - 1 else i)"
proof -
  let ?rest = "take d ts @ drop (Suc d) ts" and ?h = "unat (hash_key k)"
  have i: "i < length ts" unfolding assms(4) using assms(3) by (intro mod_less_divisor) auto
  then have ne: "?rest \<noteq> []" and len: "length ?rest = length ts - 1"
    using assms(3,5) by auto
  define j where "j = ?h mod (length ts - 1)"
  have j: "j < length ?rest" unfolding len j_def using ne len by (intro mod_less_divisor) (auto simp: length_greater_0_conv [symmetric] simp del: length_greater_0_conv)
  have before: "fst (consistent_hash_next (Some k) \<lparr>ch_targets = ts\<rparr>) = Some (url (ts ! i))"
    using assms(1,3,4) by (subst consistent_hash_next_alive) (auto simp: list_all_iff filter_id_conv)
  have after: "fst (consistent_hash_next (Some k) \<lparr>ch_targets = store_alive d False ts\<rparr>) = Some (url (?rest ! j))"
    using ne len by (subst consistent_hash_next_alive) (simp_all add: filter_alive_store_dead assms(1,3) j_def)
  have "?rest ! j = ts ! (if j < d then j else Suc j)"
    using j assms(3) by (simp add: nth_append)
  moreover have lt: "(if j < d then j else Suc j) < length ts" using j len by auto
  moreover have "url (ts ! x) = url (ts ! i) \<longleftrightarrow> x = i" if "x < length ts" for x
    using nth_eq_iff_index_eq [OF assms(2), of x i] that i by simp
  ultimately have "url (?rest ! j) = url (ts ! i) \<longleftrightarrow> (if j < d then j else Suc j) = i"
    by (simp only:)
  then show ?thesis
    unfolding before after j_def [symmetric] option.inject using assms(5)
    by (cases "j < d") auto
qed

theorem consistent_hash_remap_iff_witness:
  "fst (consistent_hash_next (Some ''10.0.0.1'')
      \<lparr>ch_targets = store_alive 2 False (map Target_new [''http://a'', ''http://b'', ''http://c''])\<rparr>) \<noteq>
   fst (consistent_hash_next (Some ''10.0.0.1'')
      \<lparr>ch_targets = map Target_new [''http://a'', ''http://b'', ''http://c'']\<rparr>)"
proof -
  let ?ts = "map Target_new [''http://a'', ''http://b'', ''http://c'']"
  have len: "length ?ts = 3" by simp
  have "siphash13 (as_bytes ''10.0.0.1'' @ [0xFF]) = 15009938866990945576" by code_simp
  then have h: "unat (hash_key ''10.0.0.1'') = 15009938866990945576" by (simp add: hash_key_def)
  have "list_all alive ?ts" "distinct (map url ?ts)" "2 < length ?ts" by (simp_all add: Target_new_def)
  note remap = consistent_hash_remap_iff [OF this, of _ "''10.0.0.1''"]
  have "unat (hash_key ''10.0.0.1'') mod length ?ts \<noteq> 2" unfolding h by simp
  from remap [OF refl this] have "fst (consistent_hash_next (Some ''10.0.0.1'') \<lparr>ch_targets = store_alive 2 False ?ts\<rparr>) =
      fst (consistent_hash_next (Some ''10.0.0.1'') \<lparr>ch_targets = ?ts\<rparr>) \<longleftrightarrow>
    15009938866990945576 mod (3 - 1 :: nat) = (if 2 < (15009938866990945576 mod 3 :: nat)
      then 15009938866990945576 mod 3 - 1 else 15009938866990945576 mod 3)"
    unfolding h len .
  then show ?thesis by simp
qed

end
