(* ===== verification/Concurrent.thy ===== *)
theory Concurrent
  imports Balancer
begin

section \<open>Concurrent selections (src/upstream/balancer.rs)\<close>

text \<open>
  \<open>RoundRobin::next\<close> takes \<open>&self\<close> and is called from many threads while health checks store
  flags: it loads the flags one by one, then takes a ticket with \<open>fetch_add\<close>, then indexes the
  targets it has found alive. Here each of those is a step of its own, and the threads and the
  health checks interleave in any order.
\<close>

datatype rr_pc =
    Scan nat "nat list"  \<comment> \<open>the next flag to load, the positions found alive\<close>
  | Fetch "nat list"
  | Pick "nat list" usize
  | Returned "string option"

record rr_shared =
  sh_targets :: "target list"
  sh_counter :: usize
  sh_pc :: "nat \<Rightarrow> rr_pc"

datatype rr_label = Thread nat | Health nat bool

definition rr_shared_start :: "round_robin \<Rightarrow> rr_shared" where
  "rr_shared_start b =
     \<lparr>sh_targets = rr_targets b, sh_counter = rr_counter b, sh_pc = (\<lambda>_. Scan 0 [])\<rparr>"

inductive rr_step :: "rr_shared \<Rightarrow> rr_label \<Rightarrow> rr_shared \<Rightarrow> bool" where
  rr_load: "sh_pc s t = Scan i al \<Longrightarrow> i < length (sh_targets s) \<Longrightarrow>
    rr_step s (Thread t)
      (s\<lparr>sh_pc := (sh_pc s)(t := Scan (Suc i) (if alive (sh_targets s ! i) then al @ [i] else al))\<rparr>)"
| rr_empty: "sh_pc s t = Scan (length (sh_targets s)) [] \<Longrightarrow>
    rr_step s (Thread t) (s\<lparr>sh_pc := (sh_pc s)(t := Returned None)\<rparr>)"
| rr_found: "sh_pc s t = Scan (length (sh_targets s)) al \<Longrightarrow> al \<noteq> [] \<Longrightarrow>
    rr_step s (Thread t) (s\<lparr>sh_pc := (sh_pc s)(t := Fetch al)\<rparr>)"
| rr_fetch: "sh_pc s t = Fetch al \<Longrightarrow>
    rr_step s (Thread t)
      (s\<lparr>sh_counter := sh_counter s + 1, sh_pc := (sh_pc s)(t := Pick al (sh_counter s))\<rparr>)"
| rr_pick: "sh_pc s t = Pick al c \<Longrightarrow>
    rr_step s (Thread t)
      (s\<lparr>sh_pc := (sh_pc s)(t := Returned (Some (url (sh_targets s ! (al ! (unat c mod length al))))))\<rparr>)"
| rr_health: "rr_step s (Health i a) (s\<lparr>sh_targets := store_alive i a (sh_targets s)\<rparr>)"

text \<open>A run, with the threads that have taken a ticket in the order in which they took it.\<close>

inductive rr_run :: "rr_shared \<Rightarrow> rr_label list \<Rightarrow> nat list \<Rightarrow> rr_shared \<Rightarrow> bool" where
  run_none: "rr_run s [] [] s"
| run_step: "rr_run s ls ts s' \<Longrightarrow> rr_step s' l s'' \<Longrightarrow>
    rr_run s (ls @ [l])
      (case l of Thread t \<Rightarrow> (case sh_pc s' t of Fetch al \<Rightarrow> ts @ [t] | _ \<Rightarrow> ts) | Health i a \<Rightarrow> ts) s''"

subsection \<open>Bounds and flags\<close>

text \<open>
  The positions a thread has collected are positions of targets; a target whose flag has been
  down all the time is not among them, and one whose flag has been up and has been passed is.
\<close>

definition pc_ok :: "target list \<Rightarrow> (nat \<Rightarrow> bool) \<Rightarrow> (nat \<Rightarrow> bool) \<Rightarrow> rr_pc \<Rightarrow> bool" where
  "pc_ok ts down up pc =
     (let n = length ts; fine = (\<lambda>k al. set al \<subseteq> {j. j < n \<and> \<not> down j} \<and> {j. j < k \<and> up j} \<subseteq> set al) in
      case pc of
        Scan i al \<Rightarrow> i \<le> n \<and> fine i al
      | Fetch al \<Rightarrow> al \<noteq> [] \<and> fine n al
      | Pick al c \<Rightarrow> al \<noteq> [] \<and> fine n al
      | Returned None \<Rightarrow> \<not> (\<exists>j < n. up j)
      | Returned (Some u) \<Rightarrow> \<exists>j < n. \<not> down j \<and> u = url (ts ! j))"

text \<open>\<open>down\<close> and \<open>up\<close> hold of the flags now, and no step of a run breaks that.\<close>

definition flags_ok :: "target list \<Rightarrow> (nat \<Rightarrow> bool) \<Rightarrow> (nat \<Rightarrow> bool) \<Rightarrow> bool" where
  "flags_ok ts down up =
     (\<forall>j < length ts. (down j \<longrightarrow> \<not> alive (ts ! j)) \<and> (up j \<longrightarrow> alive (ts ! j)))"

fun label_ok :: "(nat \<Rightarrow> bool) \<Rightarrow> (nat \<Rightarrow> bool) \<Rightarrow> rr_label \<Rightarrow> bool" where
  "label_ok down up (Thread t) = True"
| "label_ok down up (Health i a) = (if a then \<not> down i else \<not> up i)"

lemma store_alive_urls: "j < length ts \<Longrightarrow> url (store_alive i a ts ! j) = url (ts ! j)"
  by (simp add: store_alive_nth)

lemma pc_ok_store [simp]: "pc_ok (store_alive i a ts) down up pc = pc_ok ts down up pc"
  by (auto simp: pc_ok_def Let_def store_alive_urls split: rr_pc.split option.split)

lemma rr_step_ok:
  assumes "rr_step s l s'" and "label_ok down up l"
    and "flags_ok (sh_targets s) down up" and "\<And>t. pc_ok (sh_targets s) down up (sh_pc s t)"
  shows "flags_ok (sh_targets s') down up \<and> pc_ok (sh_targets s') down up (sh_pc s' u)"
  using assms
proof (induction rule: rr_step.induct)
  case (rr_load s t i al)
  then show ?case
    using rr_load(5) [of u] rr_load(5) [of t]
    by (auto simp: pc_ok_def flags_ok_def Let_def less_Suc_eq)
next
  case (rr_empty s t)
  then show ?case using rr_empty(4) [of u] rr_empty(4) [of t] by (auto simp: pc_ok_def Let_def)
next
  case (rr_found s t al)
  then show ?case using rr_found(5) [of u] rr_found(5) [of t] by (auto simp: pc_ok_def Let_def)
next
  case (rr_fetch s t al)
  then show ?case using rr_fetch(4) [of u] rr_fetch(4) [of t] by (auto simp: pc_ok_def Let_def)
next
  case (rr_pick s t al c)
  have "al \<noteq> []" "set al \<subseteq> {j. j < length (sh_targets s) \<and> \<not> down j}"
    using rr_pick(4) [of t] rr_pick(1) by (auto simp: pc_ok_def Let_def)
  moreover from this(1) have "al ! (unat c mod length al) \<in> set al" by simp
  ultimately have "\<exists>j < length (sh_targets s). \<not> down j \<and>
      url (sh_targets s ! (al ! (unat c mod length al))) = url (sh_targets s ! j)" by blast
  then show ?case using rr_pick(3) rr_pick(4) [of u] by (simp add: pc_ok_def Let_def)
next
  case (rr_health s i a)
  then show ?case by (cases a) (auto simp: flags_ok_def store_alive_nth)
qed

lemma rr_step_shape:
  "rr_step s l s' \<Longrightarrow> map url (sh_targets s') = map url (sh_targets s)"
  by (induction rule: rr_step.induct) simp_all

lemma rr_run_ok:
  assumes "rr_run s ls ts s'" and "list_all (label_ok down up) ls"
    and "flags_ok (sh_targets s) down up" and "\<And>t. pc_ok (sh_targets s) down up (sh_pc s t)"
  shows "flags_ok (sh_targets s') down up \<and> (\<forall>t. pc_ok (sh_targets s') down up (sh_pc s' t)) \<and>
    map url (sh_targets s') = map url (sh_targets s)"
  using assms
proof (induction rule: rr_run.induct)
  case (run_step s ls ts s' l s'')
  then show ?case using rr_step_ok [OF run_step.hyps(2)] rr_step_shape [OF run_step.hyps(2)] by simp
qed simp

subsection \<open>Tickets\<close>

text \<open>
  Without health results in between, every thread works on the same list of live positions, and
  the threads' tickets are consecutive in the order in which they took them.
\<close>

definition live_positions :: "target list \<Rightarrow> nat \<Rightarrow> nat list" where
  "live_positions ts i = filter (\<lambda>j. alive (ts ! j)) [0..<i]"

definition ticket :: "usize \<Rightarrow> nat list \<Rightarrow> nat \<Rightarrow> usize \<Rightarrow> bool" where
  "ticket c0 fs t c = (\<exists>k < length fs. fs ! k = t \<and> c = c0 + of_nat k)"

definition pc_serial :: "target list \<Rightarrow> usize \<Rightarrow> nat list \<Rightarrow> nat \<Rightarrow> rr_pc \<Rightarrow> bool" where
  "pc_serial ts c0 fs t pc =
     (let al = live_positions ts (length ts) in
      case pc of
        Scan i xs \<Rightarrow> i \<le> length ts \<and> xs = live_positions ts i \<and> t \<notin> set fs
      | Fetch xs \<Rightarrow> xs = al \<and> al \<noteq> [] \<and> t \<notin> set fs
      | Pick xs c \<Rightarrow> xs = al \<and> al \<noteq> [] \<and> ticket c0 fs t c
      | Returned None \<Rightarrow> al = [] \<and> t \<notin> set fs
      | Returned (Some u) \<Rightarrow> al \<noteq> [] \<and>
          (\<exists>c. ticket c0 fs t c \<and> u = url (ts ! (al ! (unat c mod length al)))))"

lemma live_positions_Suc:
  "live_positions ts (Suc i) = (if alive (ts ! i) then live_positions ts i @ [i] else live_positions ts i)"
  by (simp add: live_positions_def)

lemma live_positions_0 [simp]: "live_positions ts 0 = []"
  by (simp add: live_positions_def)

lemma filter_alive_positions: "filter alive ts = map (\<lambda>j. ts ! j) (live_positions ts (length ts))"
proof -
  have "filter alive ts = filter alive (map (\<lambda>j. ts ! j) [0..<length ts])" by (simp add: map_nth)
  then show ?thesis by (simp only: filter_map comp_def live_positions_def)
qed

lemma ticket_mono: "ticket c0 fs t c \<Longrightarrow> ticket c0 (fs @ gs) t c"
  by (fastforce simp: ticket_def nth_append intro: less_trans)

lemma ticket_new: "ticket c0 (fs @ [t]) t (c0 + of_nat (length fs))"
  by (auto simp: ticket_def intro!: exI [of _ "length fs"])

lemma pc_serial_append: "pc_serial ts c0 fs u pc \<Longrightarrow> u \<noteq> t \<Longrightarrow> pc_serial ts c0 (fs @ [t]) u pc"
  by (auto simp: pc_serial_def Let_def split: rr_pc.splits option.splits dest: ticket_mono)

definition serial :: "round_robin \<Rightarrow> nat list \<Rightarrow> rr_shared \<Rightarrow> bool" where
  "serial b fs s \<longleftrightarrow>
     sh_targets s = rr_targets b \<and> sh_counter s = rr_counter b + of_nat (length fs) \<and> distinct fs \<and>
     (\<forall>t. pc_serial (rr_targets b) (rr_counter b) fs t (sh_pc s t))"

lemma serial_update:
  assumes "serial b fs s" and "pc_serial (rr_targets b) (rr_counter b) fs t pc"
  shows "serial b fs (s\<lparr>sh_pc := (sh_pc s)(t := pc)\<rparr>)"
  using assms by (simp add: serial_def)

lemma serial_pc: "serial b fs s \<Longrightarrow> sh_pc s t = pc \<Longrightarrow> pc_serial (rr_targets b) (rr_counter b) fs t pc"
  by (auto simp: serial_def)

lemma serial_step:
  assumes "rr_step s (Thread t) s'" and "serial b fs s"
  shows "serial b (case sh_pc s t of Fetch al \<Rightarrow> fs @ [t] | _ \<Rightarrow> fs) s'"
  using assms
proof (induction s "Thread t" s' rule: rr_step.induct)
  case (rr_load s i al)
  from serial_pc [OF rr_load(3,1)] rr_load show ?case
    by (auto simp: pc_serial_def Let_def live_positions_Suc serial_def intro!: serial_update)
next
  case (rr_empty s)
  from serial_pc [OF rr_empty(2,1)] rr_empty have "pc_serial (rr_targets b) (rr_counter b) fs t (Returned None)"
    by (auto simp: pc_serial_def Let_def serial_def)
  with rr_empty show ?case by (simp add: serial_update)
next
  case (rr_found s al)
  from serial_pc [OF rr_found(3,1)] rr_found have "pc_serial (rr_targets b) (rr_counter b) fs t (Fetch al)"
    by (auto simp: pc_serial_def Let_def serial_def)
  with rr_found show ?case by (simp add: serial_update)
next
  case (rr_fetch s al)
  have pc: "pc_serial (rr_targets b) (rr_counter b) fs t (Fetch al)" using serial_pc [OF rr_fetch(2,1)] .
  then have "pc_serial (rr_targets b) (rr_counter b) (fs @ [t]) t (Pick al (rr_counter b + of_nat (length fs)))"
    using ticket_new [of "rr_counter b" fs t] by (simp add: pc_serial_def Let_def)
  moreover have "pc_serial (rr_targets b) (rr_counter b) (fs @ [t]) u (sh_pc s u)" if "u \<noteq> t" for u
    using serial_pc [OF rr_fetch(2) refl] that by (rule pc_serial_append)
  ultimately show ?case using rr_fetch pc by (auto simp: serial_def pc_serial_def Let_def)
next
  case (rr_pick s al c)
  from serial_pc [OF rr_pick(2,1)] rr_pick(2)
  have "pc_serial (rr_targets b) (rr_counter b) fs t (Returned (Some (url (sh_targets s ! (al ! (unat c mod length al))))))"
    by (auto simp: pc_serial_def Let_def serial_def)
  with rr_pick show ?case by (simp add: serial_update)
qed

fun is_thread :: "rr_label \<Rightarrow> bool" where
  "is_thread (Thread t) = True"
| "is_thread (Health i a) = False"

lemma serial_run:
  "rr_run s ls fs s' \<Longrightarrow> serial b [] s \<Longrightarrow> list_all is_thread ls \<Longrightarrow> serial b fs s'"
proof (induction rule: rr_run.induct)
  case (run_step s ls ts s' l s'')
  then obtain t where "l = Thread t" by (cases l) auto
  with run_step serial_step [of s' t s'' b ts] show ?case by simp
qed simp

lemma serial_start: "serial b [] (rr_shared_start b)"
  by (simp add: serial_def rr_shared_start_def pc_serial_def)

lemma pc_ok_start: "pc_ok ts down up (Scan 0 [])"
  by (simp add: pc_ok_def)

lemma rr_alive_positions:
  "rr_alive b = map (\<lambda>j. rr_targets b ! j) (live_positions (rr_targets b) (length (rr_targets b)))"
  by (simp only: rr_alive_def filter_alive_positions)

text \<open>A run computed from a schedule, for the concrete runs below.\<close>

fun thread_next :: "nat \<Rightarrow> rr_shared \<times> nat list \<Rightarrow> rr_shared \<times> nat list" where
  "thread_next t (s, ts) =
     (case sh_pc s t of
        Scan i al \<Rightarrow>
          (if i < length (sh_targets s)
           then (s\<lparr>sh_pc := (sh_pc s)(t := Scan (Suc i) (if alive (sh_targets s ! i) then al @ [i] else al))\<rparr>, ts)
           else if al = [] then (s\<lparr>sh_pc := (sh_pc s)(t := Returned None)\<rparr>, ts)
           else (s\<lparr>sh_pc := (sh_pc s)(t := Fetch al)\<rparr>, ts))
      | Fetch al \<Rightarrow>
          (s\<lparr>sh_counter := sh_counter s + 1, sh_pc := (sh_pc s)(t := Pick al (sh_counter s))\<rparr>, ts @ [t])
      | Pick al c \<Rightarrow>
          (s\<lparr>sh_pc := (sh_pc s)(t := Returned (Some (url (sh_targets s ! (al ! (unat c mod length al))))))\<rparr>, ts)
      | Returned r \<Rightarrow> (s, ts))"

definition can_step :: "nat \<Rightarrow> rr_shared \<Rightarrow> bool" where
  "can_step t s = (case sh_pc s t of Scan i al \<Rightarrow> i \<le> length (sh_targets s) | Returned r \<Rightarrow> False | _ \<Rightarrow> True)"

fun schedule_ok :: "nat list \<Rightarrow> rr_shared \<times> nat list \<Rightarrow> bool" where
  "schedule_ok [] st = True"
| "schedule_ok (t # sched) st = (can_step t (fst st) \<and> schedule_ok sched (thread_next t st))"

lemma thread_next_run:
  assumes "rr_run s0 ls ts s" and "can_step t s"
  shows "rr_run s0 (ls @ [Thread t]) (snd (thread_next t (s, ts))) (fst (thread_next t (s, ts)))"
proof -
  have "rr_step s (Thread t) (fst (thread_next t (s, ts)))"
  proof (cases "sh_pc s t")
    case (Scan i al)
    with assms(2) consider "i < length (sh_targets s)" | "i = length (sh_targets s)" "al = []"
      | "i = length (sh_targets s)" "al \<noteq> []"
      by (cases "al = []") (force simp: can_step_def le_less)+
    then show ?thesis
      by cases (use Scan rr_load [of s t i al] rr_empty [of s t] rr_found [of s t al] in simp_all)
  qed (use assms(2) in \<open>auto simp: can_step_def intro: rr_step.intros\<close>)
  from run_step [OF assms(1) this] show ?thesis by (auto split: rr_pc.split)
qed

lemma schedule_run:
  "rr_run s0 ls (snd st) (fst st) \<Longrightarrow> schedule_ok sched st \<Longrightarrow>
     rr_run s0 (ls @ map Thread sched) (snd (fold thread_next sched st)) (fst (fold thread_next sched st))"
proof (induction sched arbitrary: ls st)
  case (Cons t sched)
  then have "rr_run s0 (ls @ [Thread t]) (snd (thread_next t st)) (fst (thread_next t st))"
    using thread_next_run [of s0 ls "snd st" "fst st" t] by simp
  from Cons.IH [OF this] Cons.prems(2) show ?case by simp
qed simp

text \<open>One thread alone, and two threads that both scan before the second takes the first ticket.\<close>

lemma single_run:
  obtains s where
    "rr_run (rr_shared_start (RoundRobin_new [Target_new ''http://a''])) (map Thread [0, 0, 0, 0]) [0] s"
    "sh_pc s 0 = Returned (Some ''http://a'')"
proof -
  let ?s0 = "rr_shared_start (RoundRobin_new [Target_new ''http://a''])"
  note defs = rr_shared_start_def RoundRobin_new_def Target_new_def can_step_def
  show thesis
    using schedule_run [of ?s0 "[]" "(?s0, [])" "[0, 0, 0, 0]"]
    by (intro that [of "fst (fold thread_next [0, 0, 0, 0] (?s0, []))"]) (simp_all add: defs run_none)
qed

lemma double_run:
  obtains s where
    "rr_run (rr_shared_start (RoundRobin_new [Target_new ''http://a'', Target_new ''http://b'']))
       (map Thread [0, 1, 1, 0, 1, 0, 1, 0, 0, 1]) [1, 0] s"
    "sh_pc s 0 = Returned (Some ''http://b'')"
proof -
  let ?s0 = "rr_shared_start (RoundRobin_new [Target_new ''http://a'', Target_new ''http://b''])"
  note defs = rr_shared_start_def RoundRobin_new_def Target_new_def can_step_def
  show thesis
    using schedule_run [of ?s0 "[]" "(?s0, [])" "[0, 1, 1, 0, 1, 0, 1, 0, 0, 1]"]
    by (intro that [of "fst (fold thread_next [0, 1, 1, 0, 1, 0, 1, 0, 0, 1] (?s0, []))"]) (simp_all add: defs run_none)
qed

subsection \<open>Properties\<close>

text \<open>
  C19. Calls of \<open>RoundRobin::next\<close> that run concurrently with each other and with health checks: a target that is
  down during the whole run is never returned, a call returns nothing only if no target is up
  during the whole run, and no call indexes out of range although the flags it has read may have
  changed since.
\<close>

theorem concurrent_selection_safe:
  assumes "rr_run (rr_shared_start b) ls ts s"
    and "flags_ok (rr_targets b) down up" and "list_all (label_ok down up) ls"
    and "sh_pc s t = Returned r"
  shows "case r of
      Some u \<Rightarrow> \<exists>j < length (rr_targets b). \<not> down j \<and> u = url (rr_targets b ! j)
    | None \<Rightarrow> \<not> (\<exists>j < length (rr_targets b). up j)"
proof -
  have start: "sh_targets (rr_shared_start b) = rr_targets b" "\<And>t. sh_pc (rr_shared_start b) t = Scan 0 []"
    by (simp_all add: rr_shared_start_def)
  have ok: "pc_ok (sh_targets s) down up (sh_pc s t)" and urls: "map url (sh_targets s) = map url (rr_targets b)"
    using rr_run_ok [OF assms(1,3)] assms(2) by (simp_all add: start pc_ok_start)
  have len: "length (sh_targets s) = length (rr_targets b)" using urls by (metis length_map)
  moreover have "url (sh_targets s ! j) = url (rr_targets b ! j)" if "j < length (rr_targets b)" for j
    using urls len that by (metis nth_map)
  ultimately show ?thesis using ok by (auto simp: assms(4) pc_ok_def Let_def split: option.splits)
qed

theorem concurrent_selection_safe_witness:
  "\<exists>ls ts s. rr_run (rr_shared_start (RoundRobin_new [Target_new ''http://a''])) ls ts s \<and>
     sh_pc s 0 = Returned (Some ''http://a'') \<and>
     (\<forall>r. sh_pc s 0 = Returned r \<longrightarrow> r \<noteq> None)"
proof -
  let ?b = "RoundRobin_new [Target_new ''http://a'']"
  obtain s where run: "rr_run (rr_shared_start ?b) (map Thread [0, 0, 0, 0]) [0] s"
    and pc: "sh_pc s 0 = Returned (Some ''http://a'')" by (rule single_run)
  have "flags_ok (rr_targets ?b) (\<lambda>_. False) (\<lambda>_. True)"
    by (simp add: flags_ok_def RoundRobin_new_def Target_new_def)
  from concurrent_selection_safe [OF run this, of 0]
  have "\<forall>r. sh_pc s 0 = Returned r \<longrightarrow> r \<noteq> None"
    by (auto simp: RoundRobin_new_def list_all_iff split: option.splits)
  with run pc show ?thesis by blast
qed

text \<open>
  C5. Concurrent selections are linearizable at their \<open>fetch_add\<close> while no flag changes: whatever
  the interleaving, no thread takes two tickets, and the thread with the \<open>k\<close>-th ticket returns
  what the \<open>k\<close>-th of the same number of sequential calls returns, so the fairness of the
  sequential balancer carries over.
\<close>

theorem concurrent_selection_serial:
  assumes "rr_run (rr_shared_start b) ls fs s" and "list_all is_thread ls" and "sh_pc s t = Returned r"
  shows "distinct fs \<and>
    (case r of
       None \<Rightarrow> rr_alive b = []
     | Some u \<Rightarrow> \<exists>k < length fs. fs ! k = t \<and>
         fst (serve round_robin_next (replicate (length fs) None) b) ! k = Some u)"
proof -
  have ser: "serial b fs s" using serial_run [OF assms(1) serial_start assms(2)] .
  show ?thesis
  proof (cases r)
    case None
    with ser serial_pc [OF ser assms(3)] show ?thesis
      by (simp add: serial_def pc_serial_def Let_def rr_alive_positions)
  next
    case (Some u)
    with serial_pc [OF ser assms(3)] obtain k where al: "rr_alive b \<noteq> []" and k: "k < length fs" "fs ! k = t"
      and u: "u = url (rr_alive b ! (unat (rr_counter b + of_nat k) mod length (rr_alive b)))"
      by (auto simp: pc_serial_def Let_def rr_alive_positions ticket_def)
    then have "fst (serve round_robin_next (replicate (length fs) None) b) ! k = Some u"
      by (simp add: round_robin_serve [OF al])
    with Some k ser show ?thesis by (auto simp: serial_def)
  qed
qed

theorem concurrent_selection_serial_witness:
  "fst (serve round_robin_next [None, None]
     (RoundRobin_new [Target_new ''http://a'', Target_new ''http://b''])) ! 1 = Some ''http://b''"
proof -
  obtain s where run: "rr_run (rr_shared_start (RoundRobin_new [Target_new ''http://a'', Target_new ''http://b'']))
      (map Thread [0, 1, 1, 0, 1, 0, 1, 0, 0, 1]) [1, 0] s"
    and pc: "sh_pc s 0 = Returned (Some ''http://b'')" by (rule double_run)
  from concurrent_selection_serial [OF run _ pc]
  have "\<exists>k < 2. [1, 0 :: nat] ! k = 0 \<and> fst (serve round_robin_next [None, None]
      (RoundRobin_new [Target_new ''http://a'', Target_new ''http://b''])) ! k = Some ''http://b''"
    by (simp add: list_all_iff eval_nat_numeral del: nth_Cons_Suc)
  moreover have "k < 2 \<Longrightarrow> [1, 0 :: nat] ! k = 0 \<Longrightarrow> k = 1" for k
    by (cases k) simp_all
  ultimately show ?thesis by blast
qed

end
