(* ===== verification/Trace.thy ===== *)
theory Trace
  imports Engine
begin

section \<open>Stages, simulations of the virtual machine, and traces of hook calls\<close>

text \<open>
  The four stages of a request in the order the handler runs them, an interface for replacing
  the virtual machine by another one that does the same (\<open>vm_simulation\<close>), and its use: a
  machine that also records which plugins are loaded and which hooks are called, and
  \<open>script_vm\<close>, a machine for plugins that only define functions, on which the theorems of the
  development are evaluated.
\<close>

subsection \<open>Stages\<close>

datatype stage = On_Request | On_Route | On_Transform | On_Response

fun stage_index :: "stage \<Rightarrow> nat" where
  "stage_index On_Request = 0"
| "stage_index On_Route = 1"
| "stage_index On_Transform = 2"
| "stage_index On_Response = 3"

fun hook_name :: "stage \<Rightarrow> string" where
  "hook_name On_Request = ''on_request''"
| "hook_name On_Route = ''on_route''"
| "hook_name On_Transform = ''on_transform''"
| "hook_name On_Response = ''on_response''"

lemma stage_index_inj: "stage_index a = stage_index b \<Longrightarrow> a = b"
  by (cases a; cases b) simp_all

lemma hook_name_inj [simp]: "hook_name a = hook_name b \<longleftrightarrow> a = b"
  by (cases a; cases b) simp_all

instantiation stage :: linorder
begin

definition less_eq_stage :: "stage \<Rightarrow> stage \<Rightarrow> bool" where
  "less_eq_stage a b = (stage_index a \<le> stage_index b)"

definition less_stage :: "stage \<Rightarrow> stage \<Rightarrow> bool" where
  "less_stage a b = (stage_index a < stage_index b)"

instance
  by standard (auto simp: less_eq_stage_def less_stage_def dest: stage_index_inj)

end

subsection \<open>Simulation\<close>

text \<open>
  \<open>vm\<close> with states \<open>'h\<close> does what \<open>vm0\<close> does with states \<open>'g\<close>: \<open>abs\<close> forgets what \<open>vm\<close> knows
  in addition, \<open>absf\<close> does so for functions.
\<close>

locale vm_simulation =
  fixes vm0 :: "('g, 'f) lua_vm"
    and vm :: "('h, 'e) lua_vm"
    and abs :: "'h \<Rightarrow> 'g"
    and absf :: "'e \<Rightarrow> 'f"
  assumes sim_exec: "vm_exec vm0 n src c (abs h) = apfst abs (vm_exec vm n src c h)"
    and sim_global: "vm_global vm0 (abs h) hook = map_option absf (vm_global vm h hook)"
    and sim_call: "vm_call vm0 (absf f) c (abs h) = apfst abs (vm_call vm f c h)"
begin

lemma sim_plugin_hook:
  "plugin_hook uni vm0 srcs hook n (apfst abs s) =
     map_prod (apfst abs) (map_option absf) (plugin_hook uni vm srcs hook n s)"
  by (cases s)
    (auto simp: plugin_hook_def load_plugin_def sim_exec sim_global split: option.splits prod.splits)

lemma sim_call_hook:
  "call_hook uni vm0 (absf f) (apfst abs s) = apfst (apfst abs) (call_hook uni vm f s)"
  by (cases s) (auto simp: call_hook_def sim_call split: prod.splits)

lemma sim_call_hook_pair:
  "call_hook uni vm0 (absf f) (abs g, c) = apfst (apfst abs) (call_hook uni vm f (g, c))"
  using sim_call_hook [of uni f "(g, c)"] by simp

lemma sim_request_plugin:
  "request_plugin uni vm0 srcs n (apfst abs s) = apfst (apfst abs) (request_plugin uni vm srcs n s)"
  by (auto simp: request_plugin_def sim_plugin_hook sim_call_hook_pair split: option.splits prod.splits)

lemma sim_request_loop:
  "request_loop uni vm0 srcs ns (apfst abs s) = apfst abs (request_loop uni vm srcs ns s)"
  by (induction ns arbitrary: s) (auto simp: sim_request_plugin split: prod.splits)

lemma sim_route_plugin:
  "route_plugin uni vm0 srcs n (apfst abs s) = apfst (apfst abs) (route_plugin uni vm srcs n s)"
  by (auto simp: route_plugin_def sim_plugin_hook sim_call_hook_pair split: option.splits prod.splits)

lemma sim_route_loop:
  "route_loop uni vm0 srcs ns (apfst abs s) = apfst (apfst abs) (route_loop uni vm srcs ns s)"
  by (induction ns arbitrary: s) (auto simp: sim_route_plugin split: prod.splits option.splits)

lemma sim_transform_plugin:
  "transform_plugin uni vm0 srcs n (apfst abs s) = apfst abs (transform_plugin uni vm srcs n s)"
  by (auto simp: transform_plugin_def sim_plugin_hook sim_call_hook_pair split: option.splits prod.splits)

lemma sim_response_plugin:
  "response_plugin uni vm0 srcs n (apfst abs s) = apfst abs (response_plugin uni vm srcs n s)"
  by (auto simp: response_plugin_def sim_plugin_hook sim_call_hook_pair split: option.splits prod.splits)

lemma sim_run_on_request:
  "run_on_request uni vm0 srcs (apfst abs s) = apfst (apfst abs) (run_on_request uni vm srcs s)"
  by (simp add: run_on_request_def sim_request_loop)

lemma sim_run_on_route:
  "run_on_route uni vm0 srcs (apfst abs s) = apfst (apfst abs) (run_on_route uni vm srcs s)"
  by (simp add: run_on_route_def sim_route_loop split: prod.splits)

lemma sim_run_on_transform:
  "run_on_transform uni vm0 srcs (apfst abs s) = apfst (apfst abs) (run_on_transform uni vm srcs s)"
proof -
  have "fold (transform_plugin uni vm0 srcs) ns (apfst abs s) =
    apfst abs (fold (transform_plugin uni vm srcs) ns s)" for ns
    by (induction ns arbitrary: s) (simp_all add: sim_transform_plugin)
  then show ?thesis by (simp add: run_on_transform_def)
qed

lemma sim_run_on_response:
  "run_on_response uni vm0 srcs (apfst abs s) = apfst (apfst abs) (run_on_response uni vm srcs s)"
proof -
  have "fold (response_plugin uni vm0 srcs) ns (apfst abs s) =
    apfst abs (fold (response_plugin uni vm srcs) ns s)" for ns
    by (induction ns arbitrary: s) (simp_all add: sim_response_plugin)
  then show ?thesis by (simp add: run_on_response_def)
qed

end

subsection \<open>A machine that records its calls\<close>

datatype vm_event = Ev_Load string | Ev_Call string

definition tracing :: "('g, 'f) lua_vm \<Rightarrow> ('g \<times> vm_event list, string \<times> 'f) lua_vm" where
  "tracing vm =
     \<lparr>vm_init = (\<lambda>gl. map_option (\<lambda>g. (g, [])) (vm_init vm gl)),
      vm_exec = (\<lambda>n src c (g, t).
        case vm_exec vm n src c g of (g', r) \<Rightarrow> ((g', t @ [Ev_Load n]), r)),
      vm_global = (\<lambda>(g, t) hook. map_option (Pair hook) (vm_global vm g hook)),
      vm_call = (\<lambda>(hook, f) c (g, t).
        case vm_call vm f c g of (g', r) \<Rightarrow> ((g', t @ [Ev_Call hook]), r))\<rparr>"

interpretation traced: vm_simulation vm "tracing vm" fst snd for vm
  by unfold_locales
    (auto simp: tracing_def option.map_comp comp_def option.map_ident split: prod.splits)

text \<open>A run of one stage extends the trace, and calls only the hook of that stage.\<close>

definition trace_ext :: "string \<Rightarrow> vm_event list \<Rightarrow> vm_event list \<Rightarrow> bool" where
  "trace_ext hook t t' =
     (\<exists>es. t' = t @ es \<and> list_all (\<lambda>e. \<forall>h. e = Ev_Call h \<longrightarrow> h = hook) es)"

lemma trace_ext_refl [simp]: "trace_ext hook t t"
  by (simp add: trace_ext_def)

lemma trace_ext_trans: "trace_ext hook t t' \<Longrightarrow> trace_ext hook t' t'' \<Longrightarrow> trace_ext hook t t''"
  unfolding trace_ext_def by fastforce

lemma trace_ext_load [simp]: "trace_ext hook t (t @ [Ev_Load n])"
  by (simp add: trace_ext_def)

lemma trace_ext_call [simp]: "trace_ext hook t (t @ [Ev_Call hook])"
  by (simp add: trace_ext_def)

lemma traced_plugin_hook:
  assumes "plugin_hook uni (tracing vm) srcs hook n s = (s', f)"
  shows "trace_ext hook (snd (fst s)) (snd (fst s'))"
    and "f = Some hf \<Longrightarrow> fst hf = hook"
  using assms
  by (auto simp: plugin_hook_def load_plugin_def tracing_def split: option.splits prod.splits if_splits)

lemma traced_call_hook:
  assumes "call_hook uni (tracing vm) hf s = (s', r)"
  shows "trace_ext (fst hf) (snd (fst s)) (snd (fst s'))"
  using assms by (auto simp: call_hook_def tracing_def split: prod.splits)

text \<open>One plugin's turn, for every stage: the hook lookup, then at most one call.\<close>

lemma traced_turn:
  assumes "plugin_hook uni (tracing vm) srcs hook n s = (s1, Some hf)"
    and "call_hook uni (tracing vm) hf s1 = (s2, r)"
  shows "trace_ext hook (snd (fst s)) (snd (fst s2))"
proof -
  from traced_plugin_hook [OF assms(1)] have "trace_ext hook (snd (fst s)) (snd (fst s1))"
    and "fst hf = hook" by simp_all
  with traced_call_hook [OF assms(2)] show ?thesis by (blast intro: trace_ext_trans)
qed

lemma traced_request_plugin:
  "trace_ext ''on_request'' (snd (fst s)) (snd (fst (fst (request_plugin uni (tracing vm) srcs n s))))"
  unfolding request_plugin_def
  by (auto split: prod.split option.split dest: traced_plugin_hook(1) traced_turn)

lemma traced_route_plugin:
  "trace_ext ''on_route'' (snd (fst s)) (snd (fst (fst (route_plugin uni (tracing vm) srcs n s))))"
  unfolding route_plugin_def
  by (auto split: prod.split option.split dest: traced_plugin_hook(1) traced_turn)

lemma traced_transform_plugin:
  "trace_ext ''on_transform'' (snd (fst s)) (snd (fst (transform_plugin uni (tracing vm) srcs n s)))"
  unfolding transform_plugin_def
  by (auto split: prod.split option.split dest: traced_plugin_hook(1)
      intro: traced_turn [OF _ surjective_pairing])

lemma traced_response_plugin:
  "trace_ext ''on_response'' (snd (fst s)) (snd (fst (response_plugin uni (tracing vm) srcs n s)))"
  unfolding response_plugin_def
  by (auto split: prod.split option.split dest: traced_plugin_hook(1)
      intro: traced_turn [OF _ surjective_pairing])

lemma traced_request_loop:
  "trace_ext ''on_request'' (snd (fst s)) (snd (fst (request_loop uni (tracing vm) srcs ns s)))"
proof (induction ns arbitrary: s)
  case (Cons n ns)
  obtain s' h where turn: "request_plugin uni (tracing vm) srcs n s = (s', h)"
    by (cases "request_plugin uni (tracing vm) srcs n s")
  then have "trace_ext ''on_request'' (snd (fst s)) (snd (fst s'))"
    using traced_request_plugin [of s uni vm srcs n] by simp
  with turn show ?case using Cons.IH [of s'] by (auto intro: trace_ext_trans)
qed simp

lemma traced_route_loop:
  "trace_ext ''on_route'' (snd (fst s)) (snd (fst (fst (route_loop uni (tracing vm) srcs ns s))))"
proof (induction ns arbitrary: s)
  case (Cons n ns)
  obtain s' u where turn: "route_plugin uni (tracing vm) srcs n s = (s', u)"
    by (cases "route_plugin uni (tracing vm) srcs n s")
  then have "trace_ext ''on_route'' (snd (fst s)) (snd (fst s'))"
    using traced_route_plugin [of s uni vm srcs n] by simp
  with turn show ?case using Cons.IH [of s'] by (cases u) (auto intro: trace_ext_trans)
qed simp

lemma traced_fold:
  assumes "\<And>n s. trace_ext hook (snd (fst s)) (snd (fst (f n s)))"
  shows "trace_ext hook (snd (fst s)) (snd (fst (fold f ns s)))"
proof (induction ns arbitrary: s)
  case (Cons n ns)
  then show ?case using trace_ext_trans [OF assms [of s n] Cons.IH [of "f n s"]] by simp
qed simp

lemma traced_run_on_request:
  "trace_ext (hook_name On_Request) (snd (fst s)) (snd (fst (fst (run_on_request uni (tracing vm) srcs s))))"
  by (simp add: run_on_request_def traced_request_loop)

lemma traced_run_on_route:
  "trace_ext (hook_name On_Route) (snd (fst s)) (snd (fst (fst (run_on_route uni (tracing vm) srcs s))))"
  using traced_route_loop [of s uni vm srcs "ps_pipeline srcs"]
  by (auto simp: run_on_route_def split: prod.splits)

lemma traced_run_on_transform:
  "trace_ext (hook_name On_Transform) (snd (fst s)) (snd (fst (fst (run_on_transform uni (tracing vm) srcs s))))"
  by (simp add: run_on_transform_def traced_fold traced_transform_plugin)

lemma traced_run_on_response:
  "trace_ext (hook_name On_Response) (snd (fst s)) (snd (fst (fst (run_on_response uni (tracing vm) srcs s))))"
  by (simp add: run_on_response_def traced_fold traced_response_plugin)

subsection \<open>A machine for plugins that only define functions\<close>

text \<open>
  A plugin text is a list of global functions (\<open>prog\<close> maps source texts to them, \<open>None\<close>: the
  text does not compile); running it assigns them and leaves the other globals as they are, as
  Lua does.
\<close>

type_synonym script_fn = "request_ctx \<Rightarrow> ctx_call list \<times> lua_ret"
type_synonym script_state = "(string \<times> script_fn) list"

definition script_vm :: "(string \<Rightarrow> (string \<times> script_fn) list option) \<Rightarrow> (script_state, script_fn) lua_vm" where
  "script_vm prog =
     \<lparr>vm_init = (\<lambda>_. Some []),
      vm_exec = (\<lambda>n src c g. case prog src of None \<Rightarrow> (g, [], False) | Some defs \<Rightarrow> (defs @ g, [], True)),
      vm_global = (\<lambda>g hook. map_of g hook),
      vm_call = (\<lambda>f c g. (g, f c))\<rparr>"

subsection \<open>Hooks that outlive their plugin\<close>

definition calls_of :: "string \<Rightarrow> vm_event list \<Rightarrow> nat" where
  "calls_of hook t = length (filter (\<lambda>e. e = Ev_Call hook) t)"

lemma calls_of_simps [simp]:
  "calls_of hook [] = 0"
  "calls_of hook (xs @ ys) = calls_of hook xs + calls_of hook ys"
  "calls_of hook (Ev_Load n # t) = calls_of hook t"
  "calls_of hook (Ev_Call h # t) = (if h = hook then Suc (calls_of hook t) else calls_of hook t)"
  by (simp_all add: calls_of_def)

text \<open>
  A machine in which no chunk and no call removes a global, and in which the loaded texts
  compile.
\<close>

definition globals_persist :: "('g, 'f) lua_vm \<Rightarrow> plugin_sources \<Rightarrow> string \<Rightarrow> bool" where
  "globals_persist vm srcs hook =
     (\<forall>n src c g. hm_get (ps_sources srcs) n = Some src \<longrightarrow> vm_global vm g hook \<noteq> None \<longrightarrow>
        vm_global vm (fst (vm_exec vm n src c g)) hook \<noteq> None \<and>
        snd (snd (vm_exec vm n src c g)) \<and>
        (\<forall>f c'. vm_global vm (fst (vm_call vm f c' g)) hook \<noteq> None))"

lemma stale_turn:
  assumes "globals_persist vm srcs ''on_response''"
    and "vm_global vm (fst (fst s)) ''on_response'' \<noteq> None"
    and "s' = response_plugin uni (tracing vm) srcs n s"
  shows "vm_global vm (fst (fst s')) ''on_response'' \<noteq> None \<and>
    calls_of ''on_response'' (snd (fst s')) =
      calls_of ''on_response'' (snd (fst s)) + (if hm_get (ps_sources srcs) n = None then 0 else 1)"
proof (cases "hm_get (ps_sources srcs) n")
  case None
  with assms show ?thesis by (simp add: response_plugin_def plugin_hook_missing)
next
  case (Some src)
  obtain g t c where s: "s = ((g, t), c)" by (metis prod.collapse)
  obtain g' calls ok where exec: "vm_exec vm n src c g = (g', calls, ok)" by (metis prod.collapse)
  from assms(1) Some have p: "vm_global vm g ''on_response'' \<noteq> None \<Longrightarrow>
      vm_global vm g' ''on_response'' \<noteq> None \<and> ok"
    unfolding globals_persist_def using exec by (metis fst_conv snd_conv)
  with assms(2) s obtain f where f: "vm_global vm g' ''on_response'' = Some f" and ok by auto
  obtain g'' calls' r where call: "vm_call vm f (apply_calls uni calls c) g' = (g'', calls', r)"
    by (metis prod.collapse)
  from assms(1) Some f call have "vm_global vm g'' ''on_response'' \<noteq> None"
    unfolding globals_persist_def by (metis fst_conv option.distinct(1))
  with assms(3) Some f \<open>ok\<close> exec call show ?thesis
    by (simp add: s response_plugin_def plugin_hook_def load_plugin_def call_hook_def tracing_def)
qed

lemma stale_calls:
  assumes "globals_persist vm srcs ''on_response''"
    and "vm_global vm (fst (fst s)) ''on_response'' \<noteq> None"
  shows "calls_of ''on_response'' (snd (fst (fold (response_plugin uni (tracing vm) srcs) ns s))) =
    calls_of ''on_response'' (snd (fst s)) +
    length (filter (\<lambda>n. hm_get (ps_sources srcs) n \<noteq> None) ns)"
  using assms(2)
proof (induction ns arbitrary: s)
  case (Cons n ns)
  from stale_turn [OF assms(1) Cons.prems refl, of uni n] Cons.IH show ?case by auto
qed simp

subsection \<open>Properties\<close>

text \<open>
  C22. The upstream name: the first plugin whose \<open>on_route\<close> hook is called and returns a string
  decides, and the plugins after it are neither loaded nor called; a hook that returns
  anything else or fails decides nothing. If no hook returns a string, the name is the one
  that \<open>ctx:upstream\<close> has stored by the end of the last turn, if any.
\<close>

theorem on_route_precedence:
  "run_on_route uni vm srcs s =
     (case find (\<lambda>(s', r). \<exists>u. r = Some (Ret_String u))
             (all_turns uni vm srcs ''on_route'' (ps_pipeline srcs) s) of
        Some (s', Some (Ret_String u)) \<Rightarrow> (s', Inr (Some u))
      | _ \<Rightarrow>
          (let s' = last (s # map fst (all_turns uni vm srcs ''on_route'' (ps_pipeline srcs) s))
           in (s', Inr (ctx_get_var ''__upstream__'' (snd s')))))"
proof -
  let ?ts = "all_turns uni vm srcs ''on_route'' (ps_pipeline srcs) s"
  show ?thesis
  proof (cases "find (\<lambda>(s', r). \<exists>u. r = Some (Ret_String u)) ?ts")
    case None
    then show ?thesis
      by (simp add: run_on_route_def route_loop_turns last_turn_def ctx_get_var_def Let_def
          upstream_var_def named_upstream_cases del: not_None_eq)
  next
    case (Some t)
    then have "\<exists>s' u. t = (s', Some (Ret_String u))"
      by (cases t) (auto simp: find_Some_iff)
    with Some show ?thesis
      by (auto simp: run_on_route_def route_loop_turns named_upstream_cases simp del: not_None_eq)
  qed
qed



end
