(* ===== verification/Pool.thy ===== *)
theory Pool
  imports Balancer Config
begin

section \<open>The upstream pool and the health checks (src/upstream/pool.rs)\<close>

text \<open>
  \<open>UpstreamPool\<close> maps upstream names to balancers. The health-check task and the requests share
  it: a tick of the task launches one probe per target, the probes answer in any order, and
  requests select targets in between. Those interleavings are the step relation \<open>pool_step\<close>.
  A probe holds a reference to the flag of its target; as the map never changes after \<open>init\<close>,
  the reference is the name of the upstream and the position of the target.
\<close>

type_synonym upstream_pool = "(string, dyn_balancer) hashmap"

datatype pool_error = Pool_Error string

definition UpstreamPool_new :: upstream_pool where
  "UpstreamPool_new = hm_new"

definition init_balancer :: "upstream_config \<Rightarrow> dyn_balancer" where
  "init_balancer cfg = make_balancer (uc_lb cfg) (map Target_new (uc_targets cfg))"

definition UpstreamPool_init ::
    "upstream_config list \<Rightarrow> upstream_pool \<Rightarrow> (pool_error + unit) \<times> upstream_pool" where
  "UpstreamPool_init cfgs pool =
     (Inr (), fold (\<lambda>cfg. hm_insert (uc_name cfg) (init_balancer cfg)) cfgs pool)"

text \<open>\<open>map.get(name).or_else(|| map.get("default"))\<close>, with the key that was found.\<close>

definition pool_lookup :: "string \<Rightarrow> upstream_pool \<Rightarrow> (string \<times> dyn_balancer) option" where
  "pool_lookup name pool =
     (case hm_get pool name of
        Some lb \<Rightarrow> Some (name, lb)
      | None \<Rightarrow> map_option (Pair ''default'') (hm_get pool ''default''))"

definition next_url ::
    "string \<Rightarrow> string option \<Rightarrow> upstream_pool \<Rightarrow> string option \<times> upstream_pool" where
  "next_url name key pool =
     (case pool_lookup name pool of
        None \<Rightarrow> (None, pool)
      | Some (n, lb) \<Rightarrow> (case dyn_next key lb of (u, lb') \<Rightarrow> (u, hm_insert n lb' pool)))"

subsection \<open>Health checks\<close>

text \<open>
  One probe: \<open>uri_ok\<close> says which URLs parse, \<open>resp\<close> is the answer of the HTTP client to the
  \<open>HEAD\<close> request (\<open>None\<close>: no answer).
\<close>

definition is_success :: "u16 \<Rightarrow> bool" where
  "is_success status = (200 \<le> status \<and> status < 300)"

definition reqwest_health_check :: "(string \<Rightarrow> bool) \<Rightarrow> u16 option \<Rightarrow> string \<Rightarrow> bool" where
  "reqwest_health_check uri_ok resp u =
     (if uri_ok u then (case resp of Some status \<Rightarrow> is_success status \<or> status = 404 | None \<Rightarrow> False)
      else False)"

record probe =
  pr_upstream :: string
  pr_index :: nat
  pr_url :: string

definition launch_probes :: "upstream_config list \<Rightarrow> upstream_pool \<Rightarrow> probe list" where
  "launch_probes cfgs pool =
     concat (map (\<lambda>cfg.
       case hm_get pool (uc_name cfg) of
         None \<Rightarrow> []
       | Some lb \<Rightarrow>
           map (\<lambda>i. \<lparr>pr_upstream = uc_name cfg, pr_index = i,
                     pr_url = url (dyn_targets lb ! i) @ uc_health_check_path cfg\<rparr>)
             [0..<length (dyn_targets lb)]) cfgs)"

definition store_result :: "probe \<Rightarrow> bool \<Rightarrow> upstream_pool \<Rightarrow> upstream_pool" where
  "store_result p a pool =
     (case hm_get pool (pr_upstream p) of
        None \<Rightarrow> pool
      | Some lb \<Rightarrow> hm_insert (pr_upstream p) (dyn_store_alive (pr_index p) a lb) pool)"

record pool_state =
  pl_map :: upstream_pool
  pl_probes :: "probe list"

datatype pool_event = Tick | Probe_Done probe "u16 option" | Select string "string option"

inductive pool_step ::
    "(string \<Rightarrow> bool) \<Rightarrow> upstream_config list \<Rightarrow> pool_state \<Rightarrow> pool_event \<Rightarrow> pool_state \<Rightarrow> bool"
  for uri_ok cfgs where
  step_tick: "pool_step uri_ok cfgs s Tick (s\<lparr>pl_probes := pl_probes s @ launch_probes cfgs (pl_map s)\<rparr>)"
| step_done: "p \<in> set (pl_probes s) \<Longrightarrow>
    pool_step uri_ok cfgs s (Probe_Done p resp)
      \<lparr>pl_map = store_result p (reqwest_health_check uri_ok resp (pr_url p)) (pl_map s),
       pl_probes = remove1 p (pl_probes s)\<rparr>"
| step_select: "pool_step uri_ok cfgs s (Select n key) (s\<lparr>pl_map := snd (next_url n key (pl_map s))\<rparr>)"

inductive pool_steps ::
    "(string \<Rightarrow> bool) \<Rightarrow> upstream_config list \<Rightarrow> pool_state \<Rightarrow> pool_event list \<Rightarrow> pool_state \<Rightarrow> bool"
  for uri_ok cfgs where
  steps_none: "pool_steps uri_ok cfgs s [] s"
| steps_snoc: "pool_steps uri_ok cfgs s es s' \<Longrightarrow> pool_step uri_ok cfgs s' e s'' \<Longrightarrow>
    pool_steps uri_ok cfgs s (es @ [e]) s''"

inductive_cases tick_cases: "pool_step uri_ok cfgs s Tick s'"
inductive_cases done_cases: "pool_step uri_ok cfgs s (Probe_Done p resp) s'"
inductive_cases select_cases: "pool_step uri_ok cfgs s (Select n key) s'"
inductive_simps tick_simps: "pool_step uri_ok cfgs s Tick s'"
inductive_simps done_simps: "pool_step uri_ok cfgs s (Probe_Done p resp) s'"
inductive_simps select_simps: "pool_step uri_ok cfgs s (Select n key) s'"

definition pool_start :: "upstream_config list \<Rightarrow> pool_state" where
  "pool_start cfgs = \<lparr>pl_map = snd (UpstreamPool_init cfgs UpstreamPool_new), pl_probes = []\<rparr>"

subsection \<open>The shape of the pool\<close>

text \<open>
  What no step changes: the kind of a balancer, the URLs of its targets and their connection
  counts.
\<close>

fun shape :: "dyn_balancer \<Rightarrow> nat \<times> string list \<times> usize list" where
  "shape (Dyn_Round_Robin b) = (0, map url (rr_targets b), map active (rr_targets b))"
| "shape (Dyn_Least_Conn b) = (1, map url (lc_targets b), map active (lc_targets b))"
| "shape (Dyn_Consistent_Hash b) = (2, map url (ch_targets b), map active (ch_targets b))"

lemma shape_store [simp]: "shape (dyn_store_alive i a b) = shape b"
  by (cases b) simp_all

lemma shape_next [simp]: "shape (snd (dyn_next key b)) = shape b"
  using dyn.next_keeps [of key b] by (cases b) (simp_all add: apsnd_def map_prod_def split: prod.splits)

lemma shape_targets: "snd (shape b) = (map url (dyn_targets b), map active (dyn_targets b))"
  by (cases b) simp_all

lemma shape_make [simp]:
  "shape (init_balancer cfg) =
     (if uc_lb cfg = ''least_conn'' then 1 else if uc_lb cfg = ''consistent_hash'' then 2 else 0,
      uc_targets cfg, replicate (length (uc_targets cfg)) 0)"
  by (auto simp: init_balancer_def make_balancer_def LeastConn_new_def ConsistentHash_new_def
      RoundRobin_new_def Target_new_def comp_def map_replicate_const)

definition pool_shape :: "upstream_pool \<Rightarrow> string \<Rightarrow> (nat \<times> string list \<times> usize list) option" where
  "pool_shape pool n = map_option shape (hm_get pool n)"

lemma pool_lookup_get: "pool_lookup name pool = Some (n, lb) \<Longrightarrow> hm_get pool n = Some lb"
  by (auto simp: pool_lookup_def split: option.splits)

lemma next_url_get:
  "hm_get (snd (next_url name key pool)) m =
     (case pool_lookup name pool of
        Some (n, lb) \<Rightarrow> if m = n then Some (snd (dyn_next key lb)) else hm_get pool m
      | None \<Rightarrow> hm_get pool m)"
  by (auto simp: next_url_def store_simps split: option.split prod.split)

lemma store_result_get:
  "hm_get (store_result p a pool) m =
     (if m = pr_upstream p then map_option (dyn_store_alive (pr_index p) a) (hm_get pool m)
      else hm_get pool m)"
  by (auto simp: store_result_def store_simps split: option.split)

lemma pool_shape_next [simp, frame_simps]: "pool_shape (snd (next_url name key pool)) = pool_shape pool"
  by (rule ext) (auto simp: pool_shape_def next_url_get split: option.split dest: pool_lookup_get)

lemma pool_shape_store [simp, frame_simps]: "pool_shape (store_result p a pool) = pool_shape pool"
  by (rule ext) (simp add: pool_shape_def store_result_get option.map_comp comp_def)

lemma pool_step_shape: "pool_step uri_ok cfgs s e s' \<Longrightarrow> pool_shape (pl_map s') = pool_shape (pl_map s)"
  by (induction rule: pool_step.induct) simp_all

lemma pool_steps_shape: "pool_steps uri_ok cfgs s es s' \<Longrightarrow> pool_shape (pl_map s') = pool_shape (pl_map s)"
  by (induction rule: pool_steps.induct) (auto dest: pool_step_shape)

subsection \<open>Lookups after \<open>init\<close>\<close>

lemma map_of_rev_find:
  "map_of (rev (map (\<lambda>x. (f x, g x)) xs)) n = map_option g (find (\<lambda>x. f x = n) (rev xs))"
proof -
  have "map_of (map (\<lambda>x. (f x, g x)) ys) n = map_option g (find (\<lambda>x. f x = n) ys)" for ys
    by (induction ys) auto
  then show ?thesis by (simp only: rev_map)
qed

lemma pool_start_get:
  "hm_get (pl_map (pool_start cfgs)) n = map_option init_balancer (find (\<lambda>c. uc_name c = n) (rev cfgs))"
  by (simp add: pool_start_def UpstreamPool_init_def UpstreamPool_new_def hm.look_put_all hm.look_new
      map_of_rev_find split: option.split)

lemma init_balancer_alive: "t \<in> set (dyn_targets (init_balancer cfg)) \<Longrightarrow> alive t \<and> active t = 0"
  by (auto simp: init_balancer_def make_balancer_def LeastConn_new_def ConsistentHash_new_def
      RoundRobin_new_def Target_new_def split: if_splits)

lemma pool_steps_get:
  assumes "pool_steps uri_ok cfgs (pool_start cfgs) es s"
  shows "map_option shape (hm_get (pl_map s) n) =
    map_option (shape \<circ> init_balancer) (find (\<lambda>c. uc_name c = n) (rev cfgs))"
  using pool_steps_shape [OF assms] pool_start_get [of cfgs n]
  by (auto simp: pool_shape_def fun_eq_iff option.map_comp)

subsection \<open>The flag of a target is the last result stored in it\<close>

fun result_of :: "(string \<Rightarrow> bool) \<Rightarrow> string \<Rightarrow> nat \<Rightarrow> pool_event \<Rightarrow> bool option" where
  "result_of uri_ok n i (Probe_Done p resp) =
     (if pr_upstream p = n \<and> pr_index p = i then Some (reqwest_health_check uri_ok resp (pr_url p)) else None)"
| "result_of uri_ok n i _ = None"

definition last_result :: "(string \<Rightarrow> bool) \<Rightarrow> string \<Rightarrow> nat \<Rightarrow> pool_event list \<Rightarrow> bool" where
  "last_result uri_ok n i es = last (True # List.map_filter (result_of uri_ok n i) es)"

lemma last_result_snoc:
  "last_result uri_ok n i (es @ [e]) =
     (case result_of uri_ok n i e of Some a \<Rightarrow> a | None \<Rightarrow> last_result uri_ok n i es)"
  by (simp add: last_result_def List.map_filter_def split: option.split)

definition flag :: "upstream_pool \<Rightarrow> string \<Rightarrow> nat \<Rightarrow> bool option" where
  "flag pool n i =
     (case hm_get pool n of
        None \<Rightarrow> None
      | Some lb \<Rightarrow> if i < length (dyn_targets lb) then Some (alive (dyn_targets lb ! i)) else None)"

lemma flag_next [frame_simps]: "flag (snd (next_url name key pool)) n i = flag pool n i"
  by (auto simp: flag_def next_url_get dyn.next_keeps split: option.split dest: pool_lookup_get)

lemma flag_store:
  "flag (store_result p a pool) n i =
     (if pr_upstream p = n \<and> pr_index p = i then map_option (\<lambda>_. a) (flag pool n i) else flag pool n i)"
  by (auto simp: flag_def store_result_get store_alive_nth split: option.split)

lemma flag_step:
  assumes "pool_step uri_ok cfgs s e s'"
  shows "flag (pl_map s') n i =
    (case result_of uri_ok n i e of Some a \<Rightarrow> map_option (\<lambda>_. a) (flag (pl_map s) n i)
       | None \<Rightarrow> flag (pl_map s) n i)"
  using assms by (induction rule: pool_step.induct) (simp_all add: flag_next flag_store)

lemma flag_start: "flag (pl_map (pool_start cfgs)) n i \<in> {None, Some True}"
  using init_balancer_alive [OF nth_mem]
  by (auto simp: flag_def pool_start_get split: option.splits)

lemma flag_steps:
  assumes "pool_steps uri_ok cfgs s es s'" and "flag (pl_map s) n i \<in> {None, Some True}"
  shows "flag (pl_map s') n i = map_option (\<lambda>_. last_result uri_ok n i es) (flag (pl_map s) n i)"
  using assms
proof (induction rule: pool_steps.induct)
  case (steps_none s)
  then show ?case by (auto simp: last_result_def List.map_filter_def)
next
  case (steps_snoc s es s' e s'')
  then show ?case
    by (auto simp: flag_step [OF steps_snoc.hyps(2)] last_result_snoc split: option.split)
qed

subsection \<open>Pending probes\<close>

text \<open>Every pending probe refers to a target of the pool and was sent to one of its URLs.\<close>

definition probe_ok :: "upstream_config list \<Rightarrow> upstream_pool \<Rightarrow> probe \<Rightarrow> bool" where
  "probe_ok cfgs pool p =
     (case pool_shape pool (pr_upstream p) of
        None \<Rightarrow> False
      | Some (_, us, _) \<Rightarrow> pr_index p < length us \<and>
          list_ex (\<lambda>c. uc_name c = pr_upstream p \<and> pr_url p = us ! pr_index p @ uc_health_check_path c) cfgs)"

lemma launch_probes_ok: "p \<in> set (launch_probes cfgs pool) \<Longrightarrow> probe_ok cfgs pool p"
proof -
  assume "p \<in> set (launch_probes cfgs pool)"
  then obtain cfg lb i where cfg: "cfg \<in> set cfgs" and lb: "hm_get pool (uc_name cfg) = Some lb"
    and i: "i < length (dyn_targets lb)"
    and p: "p = \<lparr>pr_upstream = uc_name cfg, pr_index = i,
      pr_url = url (dyn_targets lb ! i) @ uc_health_check_path cfg\<rparr>"
    by (fastforce simp: launch_probes_def split: option.splits dest: sym)
  have "pool_shape pool (pr_upstream p) = Some (fst (shape lb), map url (dyn_targets lb), map active (dyn_targets lb))"
    using lb shape_targets [of lb] by (simp add: p pool_shape_def prod_eq_iff)
  with cfg i show ?thesis by (auto simp: probe_ok_def p list_ex_iff)
qed

lemma probe_ok_shape: "pool_shape a = pool_shape b \<Longrightarrow> probe_ok cfgs a p = probe_ok cfgs b p"
  by (simp add: probe_ok_def)

lemma probes_ok_step:
  assumes "pool_step uri_ok cfgs s e s'" and "\<And>p. p \<in> set (pl_probes s) \<Longrightarrow> probe_ok cfgs (pl_map s) p"
    and "p \<in> set (pl_probes s')"
  shows "probe_ok cfgs (pl_map s') p"
proof -
  have "probe_ok cfgs (pl_map s') p = probe_ok cfgs (pl_map s) p"
    by (rule probe_ok_shape) (rule pool_step_shape [OF assms(1)])
  moreover have "p \<in> set (pl_probes s) \<or> p \<in> set (launch_probes cfgs (pl_map s))"
    using assms(1,3) by (cases rule: pool_step.cases) (auto dest: set_mp [OF set_remove1_subset])
  ultimately show ?thesis using assms(2) launch_probes_ok by blast
qed

lemma probes_ok_steps:
  assumes "pool_steps uri_ok cfgs (pool_start cfgs) es s" and "p \<in> set (pl_probes s)"
  shows "probe_ok cfgs (pl_map s) p"
proof -
  have "pool_steps uri_ok cfgs s0 es s \<Longrightarrow> (\<And>p. p \<in> set (pl_probes s0) \<Longrightarrow> probe_ok cfgs (pl_map s0) p) \<Longrightarrow>
      p \<in> set (pl_probes s) \<Longrightarrow> probe_ok cfgs (pl_map s) p" for s0 p
  proof (induction arbitrary: p rule: pool_steps.induct)
    case (steps_snoc s es s' e s'')
    show ?case by (rule probes_ok_step [OF steps_snoc.hyps(2)]) (use steps_snoc in auto)
  qed simp
  from this [OF assms(1)] assms(2) show ?thesis by (simp add: pool_start_def)
qed

subsection \<open>Properties\<close>

text \<open>
  C4. The life of the pool, over any interleaving of ticks, probe answers and selections: an
  upstream exists iff it is configured, its kind and URLs are those of the last configuration of
  its name, no connection is ever counted, the flag of a target is the last result stored for it
  (\<open>true\<close> before any), and every pending probe was sent to a URL of an existing target. A slow
  old probe may overwrite a newer result: it is the last answer that counts.
\<close>

theorem pool_history:
  assumes "pool_steps uri_ok cfgs (pool_start cfgs) es s"
  shows "(case (hm_get (pl_map s) n, find (\<lambda>c. uc_name c = n) (rev cfgs)) of
      (None, None) \<Rightarrow> True
    | (Some lb, Some cfg) \<Rightarrow> shape lb = shape (init_balancer cfg) \<and> map url (dyn_targets lb) = uc_targets cfg \<and>
        (\<forall>i < length (dyn_targets lb). active (dyn_targets lb ! i) = 0 \<and>
           alive (dyn_targets lb ! i) = last_result uri_ok n i es)
    | _ \<Rightarrow> False) \<and> list_all (probe_ok cfgs (pl_map s)) (pl_probes s)"
proof (cases "hm_get (pl_map s) n")
  case None
  with pool_steps_get [OF assms, of n] probes_ok_steps [OF assms] show ?thesis
    by (auto simp: list_all_iff split: option.splits)
next
  case (Some lb)
  with pool_steps_get [OF assms, of n] obtain cfg
    where cfg: "find (\<lambda>c. uc_name c = n) (rev cfgs) = Some cfg" and sh: "shape lb = shape (init_balancer cfg)"
    by (cases "find (\<lambda>c. uc_name c = n) (rev cfgs)") (simp_all del: shape_make)
  have "(map url (dyn_targets lb), map active (dyn_targets lb)) =
      (uc_targets cfg, replicate (length (uc_targets cfg)) 0)"
    unfolding shape_targets [symmetric] sh by simp
  then have urls: "map url (dyn_targets lb) = uc_targets cfg"
    and zero: "map active (dyn_targets lb) = replicate (length (uc_targets cfg)) 0"
    by (simp_all only: prod.inject)
  have "active (dyn_targets lb ! i) = 0 \<and> alive (dyn_targets lb ! i) = last_result uri_ok n i es"
    if i: "i < length (dyn_targets lb)" for i
  proof
    have len: "length (uc_targets cfg) = length (dyn_targets lb)" using urls by (metis length_map)
    have "map active (dyn_targets lb) ! i = 0" unfolding zero using i len by simp
    with i show "active (dyn_targets lb ! i) = 0" by simp
    have "flag (pl_map s) n i = Some (alive (dyn_targets lb ! i))" using Some i by (simp add: flag_def)
    with flag_steps [OF assms flag_start, of n i]
    show "alive (dyn_targets lb ! i) = last_result uri_ok n i es"
      by (cases "flag (pl_map (pool_start cfgs)) n i") simp_all
  qed
  with Some cfg sh urls probes_ok_steps [OF assms] show ?thesis by (auto simp: list_all_iff)
qed

theorem pool_history_witness:
  "\<exists>(s :: pool_state) lb. hm_get (pl_map s) ''default'' = Some lb \<and>
     \<not> alive (dyn_targets lb ! 0) \<and> fst (next_url ''api_v9'' None (pl_map s)) = None"
proof -
  let ?cfg = "\<lparr>uc_name = ''default'', uc_targets = [''http://a''], uc_lb = default_lb,
     uc_health_check_path = default_health_path, uc_health_check_interval = 5\<rparr>"
  let ?p = "\<lparr>pr_upstream = ''default'', pr_index = 0, pr_url = ''http://a/health''\<rparr>"
  define m where "m = pl_map (pool_start [?cfg])"
  have launch: "launch_probes [?cfg] m = [?p]"
    by (simp add: m_def launch_probes_def pool_start_get init_balancer_def make_balancer_def
        default_lb_def RoundRobin_new_def Target_new_def default_health_path_def)
  have "pool_steps (\<lambda>_. True) [?cfg] (pool_start [?cfg]) [Tick] \<lparr>pl_map = m, pl_probes = [?p]\<rparr>"
    using steps_snoc [OF steps_none step_tick, of "\<lambda>_. True" "[?cfg]" "pool_start [?cfg]"] launch
    by (simp add: m_def pool_start_def)
  from steps_snoc [OF this step_done, of ?p "Some 500"] obtain s where
    run: "pool_steps (\<lambda>_. True) [?cfg] (pool_start [?cfg]) [Tick, Probe_Done ?p (Some 500)] s" by auto
  have last: "last_result (\<lambda>_. True) ''default'' 0 [Tick, Probe_Done ?p (Some 500)] = False"
    by (simp add: last_result_def List.map_filter_simps reqwest_health_check_def is_success_def)
  obtain lb where lb: "hm_get (pl_map s) ''default'' = Some lb" and len: "length (dyn_targets lb) = 1"
    and dead: "\<not> alive (dyn_targets lb ! 0)"
    using pool_history [OF run, of "''default''"]
    by (auto simp: last dest: arg_cong [where f = length] split: option.splits)
  have none: "hm_get (pl_map s) ''api_v9'' = None"
    using pool_history [OF run, of "''api_v9''"] by (simp split: option.splits)
  have "fst (dyn_next None lb) = None"
    using dead len by (auto simp: dyn.next_complete in_set_conv_nth)
  then have "fst (next_url ''api_v9'' None (pl_map s)) = None"
    by (cases "dyn_next None lb") (simp add: next_url_def pool_lookup_def none lb)
  with lb dead show ?thesis by blast
qed

text \<open>
  C9. The selection of a URL: the named upstream is used if it exists, the upstream \<open>default\<close>
  only if it does not, so an existing upstream without a live target gives nothing. What is
  returned is the URL of a live target of the upstream used; nothing is returned iff there is
  no such upstream or none of its targets is alive; no flag, URL or other upstream changes.
\<close>

theorem next_url_correct:
  "(case pool_lookup name pool of
      None \<Rightarrow> hm_get pool name = None \<and> hm_get pool ''default'' = None \<and> next_url name key pool = (None, pool)
    | Some (n, lb) \<Rightarrow>
        hm_get pool n = Some lb \<and> n = (if hm_get pool name = None then ''default'' else name) \<and>
        (case fst (next_url name key pool) of
           Some u \<Rightarrow> \<exists>t \<in> set (dyn_targets lb). alive t \<and> url t = u
         | None \<Rightarrow> \<not> (\<exists>t \<in> set (dyn_targets lb). alive t)) \<and>
        (\<forall>m. map_option dyn_targets (hm_get (snd (next_url name key pool)) m) =
             map_option dyn_targets (hm_get pool m)) \<and>
        (\<forall>m. hm_get (snd (next_url name key pool)) m = (if m = n then Some (snd (dyn_next key lb)) else hm_get pool m)))"
proof (cases "pool_lookup name pool")
  case None
  then show ?thesis by (auto simp: pool_lookup_def next_url_def split: option.splits)
next
  case (Some nlb)
  obtain n lb where nlb: "nlb = (n, lb)" by (cases nlb)
  with Some have get: "hm_get pool n = Some lb" and n: "n = (if hm_get pool name = None then ''default'' else name)"
    by (auto simp: pool_lookup_def split: option.splits)
  have res: "fst (next_url name key pool) = fst (dyn_next key lb)"
    using Some nlb by (simp add: next_url_def split: prod.split)
  show ?thesis
    using Some nlb get n dyn.next_sound [of key lb] dyn.next_complete [of key lb]
    by (auto simp: res next_url_get dyn.next_keeps split: option.split)
qed

end
