(* ===== verification/Metrics.thy ===== *)
theory Metrics
  imports Utf8
begin

section \<open>Metrics (src/metrics.rs)\<close>

text \<open>
  The four \<open>OnceLock\<close> statics, \<open>init\<close> and \<open>gather\<close>. The prometheus crate is outside the
  sources: a collector is an identity (which call of \<open>init\<close> created it) with the options it was
  created with, the operations the program performs on collectors are recorded in order, and
  the text encoder is a parameter that sees, for each registered collector, the operations on
  it. Clones of a collector share its identity, as the crate documents.
\<close>

datatype collector_opts =
    Counter_Vec_Opts string string "string list"
  | Histogram_Opts string string "nat list"  \<comment> \<open>bucket bounds in milliseconds\<close>
  | Counter_Opts string string

datatype collector = Collector nat collector_opts

datatype metric_op = Inc_Label string | Start_Timer | Observe_Duration | Drop_Timer

record metrics =
  REGISTRY :: "collector list option"
  REQ_COUNTER :: "collector option"
  REQ_DURATION :: "collector option"
  ACTIVE_CONNS :: "collector option"
  mt_inits :: nat
  mt_log :: "(collector \<times> metric_op) list"

definition metrics_start :: metrics where
  "metrics_start =
     \<lparr>REGISTRY = None, REQ_COUNTER = None, REQ_DURATION = None, ACTIVE_CONNS = None,
      mt_inits = 0, mt_log = []\<rparr>"

text \<open>\<open>OnceLock::set\<close>: the first value stays.\<close>

fun once_set :: "'a \<Rightarrow> 'a option \<Rightarrow> 'a option" where
  "once_set v None = Some v"
| "once_set v (Some w) = Some w"

definition req_counter :: "nat \<Rightarrow> collector" where
  "req_counter k =
     Collector k (Counter_Vec_Opts ''proxy_requests_total'' ''Total number of proxy requests'' [''method''])"

definition req_duration :: "nat \<Rightarrow> collector" where
  "req_duration k =
     Collector k (Histogram_Opts ''proxy_request_duration_seconds'' ''Request duration in seconds''
       [1, 5, 10, 50, 100, 500, 1000, 5000])"

definition active_conns :: "nat \<Rightarrow> collector" where
  "active_conns k = Collector k (Counter_Opts ''proxy_active_connections'' ''Current active connections'')"

definition metrics_init :: "metrics \<Rightarrow> metrics" where
  "metrics_init mt =
     (let k = mt_inits mt in
      mt\<lparr>REGISTRY := once_set [req_counter k, req_duration k, active_conns k] (REGISTRY mt),
         REQ_COUNTER := once_set (req_counter k) (REQ_COUNTER mt),
         REQ_DURATION := once_set (req_duration k) (REQ_DURATION mt),
         ACTIVE_CONNS := once_set (active_conns k) (ACTIVE_CONNS mt),
         mt_inits := Suc k\<rparr>)"

definition metric_op :: "collector \<Rightarrow> metric_op \<Rightarrow> metrics \<Rightarrow> metrics" where
  "metric_op c op mt = mt\<lparr>mt_log := mt_log mt @ [(c, op)]\<rparr>"

text \<open>\<open>REQ_COUNTER.get().unwrap().with_label_values(&[label]).inc()\<close>; \<open>None\<close> is the panic.\<close>

definition count_request :: "string \<Rightarrow> metrics \<Rightarrow> metrics option" where
  "count_request label mt = map_option (\<lambda>c. metric_op c (Inc_Label label) mt) (REQ_COUNTER mt)"

text \<open>\<open>REQ_DURATION.get().unwrap().start_timer()\<close>: the timer is the histogram it reports to.\<close>

definition start_timer :: "metrics \<Rightarrow> (collector \<times> metrics) option" where
  "start_timer mt = map_option (\<lambda>c. (c, metric_op c Start_Timer mt)) (REQ_DURATION mt)"

definition ops_on :: "collector \<Rightarrow> (collector \<times> metric_op) list \<Rightarrow> metric_op list" where
  "ops_on c lg = map snd (filter (\<lambda>e. fst e = c) lg)"

definition gather :: "((collector \<times> metric_op list) list \<Rightarrow> byte list) \<Rightarrow> metrics \<Rightarrow> string option" where
  "gather encode mt =
     (case REGISTRY mt of
        None \<Rightarrow> None
      | Some cs \<Rightarrow> from_utf8 (encode (map (\<lambda>c. (c, ops_on c (mt_log mt))) cs)))"

text \<open>The statics after \<open>init\<close> has run at least once.\<close>

definition metrics_ready :: "metrics \<Rightarrow> bool" where
  "metrics_ready mt =
     (REGISTRY mt = Some [req_counter 0, req_duration 0, active_conns 0] \<and>
      REQ_COUNTER mt = Some (req_counter 0) \<and> REQ_DURATION mt = Some (req_duration 0) \<and>
      ACTIVE_CONNS mt = Some (active_conns 0))"

lemma metrics_init_start: "metrics_ready (metrics_init metrics_start)"
  by (simp add: metrics_ready_def metrics_init_def metrics_start_def Let_def)

lemma metrics_init_again: "metrics_ready mt \<Longrightarrow> metrics_ready (metrics_init mt)"
  by (simp add: metrics_ready_def metrics_init_def Let_def)

lemma metrics_ready_op [simp]: "metrics_ready (metric_op c op mt) = metrics_ready mt"
  by (simp add: metrics_ready_def metric_op_def)

lemma mt_log_op [simp]: "mt_log (metric_op c op mt) = mt_log mt @ [(c, op)]"
  by (simp add: metric_op_def)

lemma metrics_fields_op [simp]:
  "REGISTRY (metric_op c op mt) = REGISTRY mt" "REQ_COUNTER (metric_op c op mt) = REQ_COUNTER mt"
  "REQ_DURATION (metric_op c op mt) = REQ_DURATION mt" "ACTIVE_CONNS (metric_op c op mt) = ACTIVE_CONNS mt"
  by (simp_all add: metric_op_def)

lemma ops_on_append [simp]: "ops_on c (xs @ ys) = ops_on c xs @ ops_on c ys"
  by (simp add: ops_on_def)

lemma req_collectors_distinct [simp]:
  "req_counter i \<noteq> req_duration j" "req_duration j \<noteq> req_counter i"
  by (simp_all add: req_counter_def req_duration_def)

text \<open>How often a label has been counted.\<close>

definition label_count :: "string \<Rightarrow> metrics \<Rightarrow> nat" where
  "label_count l mt = length (filter (\<lambda>op. op = Inc_Label l) (ops_on (req_counter 0) (mt_log mt)))"

lemma metrics_inits_ready: "metrics_ready ((metrics_init ^^ Suc n) metrics_start)"
  by (induction n) (simp_all add: metrics_init_start metrics_init_again)

lemma count_request_ready:
  "metrics_ready mt \<Longrightarrow> count_request l mt = Some (metric_op (req_counter 0) (Inc_Label l) mt)"
  by (simp add: count_request_def metrics_ready_def)

lemma start_timer_ready:
  "metrics_ready mt \<Longrightarrow> start_timer mt = Some (req_duration 0, metric_op (req_duration 0) Start_Timer mt)"
  by (simp add: start_timer_def metrics_ready_def)

lemma gather_ready:
  "metrics_ready mt \<Longrightarrow> gather encode mt =
     from_utf8 (encode (map (\<lambda>c. (c, ops_on c (mt_log mt))) [req_counter 0, req_duration 0, active_conns 0]))"
  by (simp add: gather_def metrics_ready_def)

subsection \<open>Properties\<close>

text \<open>
  However often \<open>init\<close> has run (at least once), the statics and the registry refer to the same
  collectors: what a request counts, and the duration it observes, is what \<open>gather\<close> exports, under
  its label and no other; no path panics on an unset static.
\<close>

theorem metrics_exported:
  "\<exists>m1 m2. count_request l ((metrics_init ^^ Suc n) metrics_start) = Some m1 \<and>
     start_timer m1 = Some (req_duration 0, m2) \<and>
     gather encode (metric_op (req_duration 0) Observe_Duration m2) =
       from_utf8 (encode [(req_counter 0, [Inc_Label l]),
         (req_duration 0, [Start_Timer, Observe_Duration]), (active_conns 0, [])])"
proof -
  let ?mt = "(metrics_init ^^ Suc n) metrics_start"
  have ready: "metrics_ready ?mt" by (rule metrics_inits_ready)
  have "mt_log ((metrics_init ^^ k) metrics_start) = []" for k
    by (induction k) (simp_all add: metrics_start_def metrics_init_def Let_def)
  then have lg: "mt_log ?mt = []" by blast
  let ?m1 = "metric_op (req_counter 0) (Inc_Label l) ?mt"
  let ?m2 = "metric_op (req_duration 0) Start_Timer ?m1"
  have "count_request l ?mt = Some ?m1" and "start_timer ?m1 = Some (req_duration 0, ?m2)"
    using ready by (simp_all only: count_request_ready start_timer_ready metrics_ready_op)
  moreover have "gather encode (metric_op (req_duration 0) Observe_Duration ?m2) =
      from_utf8 (encode [(req_counter 0, [Inc_Label l]),
        (req_duration 0, [Start_Timer, Observe_Duration]), (active_conns 0, [])])"
    using ready lg
    by (subst gather_ready)
      (simp_all add: ops_on_def req_counter_def req_duration_def active_conns_def del: funpow.simps)
  ultimately show ?thesis by blast
qed

end
