(* ===== verification/Handler.thy ===== *)
theory Handler
  imports Trace Pool Metrics Json
begin

section \<open>Handling a request (src/handler.rs)\<close>

text \<open>
  \<open>handle_request\<close>, \<open>forward_request\<close> and \<open>error_response\<close>. The state is what outlives the
  request: the Lua state of the connection, the upstream pool, the metrics and the requests sent
  upstream. The handler environment \<open>env\<close> holds what is outside the sources: the checks of the
  \<open>http\<close> crate, the HTTP client, the Lua virtual machine, and the plugin sources each of the
  four stages finds (a hot reload may happen between stages). Panics and the \<open>Err\<close> of
  \<open>anyhow::Result\<close> are outcomes.
\<close>

record http_request =
  rq_method :: string
  rq_path :: string
  rq_query :: "string option"
  rq_headers :: "(string \<times> byte list) list"
  rq_body :: "byte list option"  \<comment> \<open>\<open>None\<close>: reading the body fails\<close>

record http_response =
  rp_status :: u16
  rp_headers :: "(string \<times> string) list"
  rp_body :: "byte list"

record upstream_request =
  ur_method :: string
  ur_url :: string
  ur_headers :: "(string, string) hashmap"
  ur_body :: "byte list"

text \<open>The answer of the HTTP client: an error, or a response whose body may fail to arrive.\<close>

datatype upstream_answer = No_Answer | Answer u16 "(string \<times> byte list) list" "byte list option"

datatype 'a outcome = Panic | Failed | Done 'a

record ('g, 'f) handler_env =
  he_uni :: "string \<Rightarrow> string"
  he_to_str :: "byte list \<Rightarrow> string option"
  he_uri_ok :: "string \<Rightarrow> bool"
  he_method_ok :: "string \<Rightarrow> bool"
  he_name_ok :: "string \<Rightarrow> bool"
  he_value_ok :: "string \<Rightarrow> bool"
  he_status_ok :: "u16 \<Rightarrow> bool"
  he_send :: "upstream_request \<Rightarrow> upstream_answer"
  he_vm :: "('g, 'f) lua_vm"
  he_srcs :: "stage \<Rightarrow> plugin_sources"

record 'g proxy_state =
  px_vm :: 'g
  px_pool :: upstream_pool
  px_metrics :: metrics
  px_sent :: "upstream_request list"

subsection \<open>Headers and the client address\<close>

text \<open>Headers whose value is not visible ASCII are dropped; of equal names the last one stays.\<close>

definition add_header ::
    "('g, 'f) handler_env \<Rightarrow> string \<times> byte list \<Rightarrow> (string, string) hashmap \<Rightarrow> (string, string) hashmap" where
  "add_header env kv m =
     (case he_to_str env (snd kv) of
        Some val \<Rightarrow> hm_insert (to_lowercase (he_uni env) (fst kv)) val m
      | None \<Rightarrow> m)"

definition collect_headers ::
    "('g, 'f) handler_env \<Rightarrow> (string \<times> byte list) list \<Rightarrow> (string, string) hashmap" where
  "collect_headers env hs = fold (add_header env) hs hm_new"

definition request_ip :: "(string, string) hashmap \<Rightarrow> string \<Rightarrow> string" where
  "request_ip headers peer =
     (case hm_get headers ''x-real-ip'' of
        Some h \<Rightarrow> h
      | None \<Rightarrow> (case hm_get headers ''x-forwarded-for'' of Some h \<Rightarrow> h | None \<Rightarrow> peer))"

subsection \<open>Error responses\<close>

definition error_body :: "u16 \<Rightarrow> string \<Rightarrow> string" where
  "error_body status msg =
     ''{'' @ quoted ''error'' @ '':'' @ CHR 0x22 # msg @ CHR 0x22 # '','' @ quoted ''status'' @ '':'' @
     show_nat (unat status) @ ''}''"

text \<open>\<open>None\<close>: the \<open>unwrap\<close> panics, because the status is not a valid one.\<close>

definition error_response :: "('g, 'f) handler_env \<Rightarrow> u16 \<Rightarrow> string \<Rightarrow> http_response option" where
  "error_response env status msg =
     (if he_status_ok env status
      then Some \<lparr>rp_status = status, rp_headers = [(''content-type'', ''application/json'')],
                 rp_body = as_bytes (error_body status msg)\<rparr>
      else None)"

definition respond_error ::
    "('g, 'f) handler_env \<Rightarrow> u16 \<Rightarrow> string \<Rightarrow> http_response outcome" where
  "respond_error env status msg =
     (case error_response env status msg of None \<Rightarrow> Panic | Some r \<Rightarrow> Done r)"

subsection \<open>Forwarding\<close>

definition headers_valid :: "('g, 'f) handler_env \<Rightarrow> (string \<times> string) list \<Rightarrow> bool" where
  "headers_valid env hs = list_all (\<lambda>e. he_name_ok env (fst e) \<and> he_value_ok env (snd e)) hs"

definition forward_request ::
    "('g, 'f) handler_env \<Rightarrow> string \<Rightarrow> string \<Rightarrow> (string, string) hashmap \<Rightarrow> byte list \<Rightarrow> 'g proxy_state \<Rightarrow>
      'g proxy_state \<times> (u16 \<times> (string, string) hashmap \<times> byte list) option" where
  "forward_request env method u headers body w =
     (if \<not> he_uri_ok env u then (w, None)
      else if \<not> (he_method_ok env method \<and> headers_valid env headers) then (w, None)
      else
        (let rq = \<lparr>ur_method = method, ur_url = u, ur_headers = headers, ur_body = body\<rparr>;
             w' = w\<lparr>px_sent := px_sent w @ [rq]\<rparr>
         in case he_send env rq of
              Answer status hs (Some b) \<Rightarrow> (w', Some (status, collect_headers env hs, b))
            | _ \<Rightarrow> (w', None)))"

subsection \<open>The stages\<close>

definition timer_op :: "collector \<Rightarrow> metric_op \<Rightarrow> 'g proxy_state \<Rightarrow> 'g proxy_state" where
  "timer_op timer op w = w\<lparr>px_metrics := metric_op timer op (px_metrics w)\<rparr>"

text \<open>The final response: the body is the original one only if the context has none.\<close>

definition build_response ::
    "('g, 'f) handler_env \<Rightarrow> request_ctx \<Rightarrow> byte list \<Rightarrow> http_response outcome" where
  "build_response env c original =
     (let final_body = (if res_body c = [] then original else as_bytes (res_body c)) in
      if he_status_ok env (res_status c) \<and> headers_valid env (res_headers c)
      then Done \<lparr>rp_status = res_status c, rp_headers = res_headers c, rp_body = final_body\<rparr>
      else Failed)"

definition respond_phase ::
    "('g, 'f) handler_env \<Rightarrow> collector \<Rightarrow> request_ctx \<Rightarrow> u16 \<Rightarrow> (string, string) hashmap \<Rightarrow> byte list \<Rightarrow>
      'g proxy_state \<Rightarrow> 'g proxy_state \<times> http_response outcome" where
  "respond_phase env timer c status headers body w =
     (let c1 = c\<lparr>res_status := status, res_headers := headers, res_body := from_utf8_lossy body\<rparr> in
      case run_on_response (he_uni env) (he_vm env) (he_srcs env On_Response) (px_vm w, c1) of
        ((g, c2), _) \<Rightarrow> (timer_op timer Observe_Duration (w\<lparr>px_vm := g\<rparr>), build_response env c2 body))"

definition upstream_headers :: "request_ctx \<Rightarrow> string \<Rightarrow> (string, string) hashmap" where
  "upstream_headers c ip =
     hm_insert ''x-proxy'' ''rust-lua-proxy/0.1'' (hm_insert ''x-forwarded-for'' ip (req_headers c))"

definition forward_phase ::
    "('g, 'f) handler_env \<Rightarrow> collector \<Rightarrow> http_request \<Rightarrow> string \<Rightarrow> byte list \<Rightarrow> request_ctx \<Rightarrow> string \<Rightarrow>
      'g proxy_state \<Rightarrow> 'g proxy_state \<times> http_response outcome" where
  "forward_phase env timer rq ip body c upstream_name w =
     (case next_url upstream_name (Some ip) (px_pool w) of
        (None, pool) \<Rightarrow>
          (timer_op timer Observe_Duration (w\<lparr>px_pool := pool\<rparr>),
           respond_error env 503 ''Service Unavailable'')
      | (Some target_url, pool) \<Rightarrow>
          (case forward_request env (rq_method rq) (trim_end_matches CHR ''/'' target_url @ rq_path rq)
                  (upstream_headers c ip) body (w\<lparr>px_pool := pool\<rparr>) of
             (w1, None) \<Rightarrow>
               (timer_op timer Observe_Duration w1, respond_error env 502 ''Bad Gateway'')
           | (w1, Some (status, headers, res)) \<Rightarrow> respond_phase env timer c status headers res w1))"

definition route_phase ::
    "('g, 'f) handler_env \<Rightarrow> collector \<Rightarrow> http_request \<Rightarrow> string \<Rightarrow> byte list \<Rightarrow> request_ctx \<Rightarrow>
      'g proxy_state \<Rightarrow> 'g proxy_state \<times> http_response outcome" where
  "route_phase env timer rq ip body c w =
     (case run_on_route (he_uni env) (he_vm env) (he_srcs env On_Route) (px_vm w, c) of
        (s1, r) \<Rightarrow>
     (case run_on_transform (he_uni env) (he_vm env) (he_srcs env On_Transform) s1 of
        ((g, c2), _) \<Rightarrow>
          forward_phase env timer rq ip body c2
            (case r of Inr (Some n) \<Rightarrow> n | _ \<Rightarrow> ''default'') (w\<lparr>px_vm := g\<rparr>)))"

definition reject_phase ::
    "('g, 'f) handler_env \<Rightarrow> collector \<Rightarrow> u16 \<Rightarrow> string \<Rightarrow> 'g proxy_state \<Rightarrow>
      'g proxy_state \<times> http_response outcome" where
  "reject_phase env timer status msg w =
     (let w1 = timer_op timer Observe_Duration w in
      case count_request ''rejected'' (px_metrics w1) of
        None \<Rightarrow> (w1, Panic)
      | Some mt \<Rightarrow> (w1\<lparr>px_metrics := mt\<rparr>, respond_error env status msg))"

definition handle_request ::
    "('g, 'f) handler_env \<Rightarrow> string \<Rightarrow> http_request \<Rightarrow> 'g proxy_state \<Rightarrow>
      'g proxy_state \<times> http_response outcome" where
  "handle_request env peer rq w =
     (case count_request (rq_method rq) (px_metrics w) of
        None \<Rightarrow> (w, Panic)
      | Some m1 \<Rightarrow>
     (case start_timer m1 of
        None \<Rightarrow> (w\<lparr>px_metrics := m1\<rparr>, Panic)
      | Some (timer, m2) \<Rightarrow>
          (let w2 = w\<lparr>px_metrics := m2\<rparr>;
               headers = collect_headers env (rq_headers rq);
               ip = request_ip headers peer
           in case rq_body rq of
                None \<Rightarrow> (timer_op timer Drop_Timer w2, Failed)
              | Some body \<Rightarrow>
                  (let c = RequestCtx_new (rq_method rq) (rq_path rq) headers (from_utf8_lossy body) ip in
                   case run_on_request (he_uni env) (he_vm env) (he_srcs env On_Request) (px_vm w2, c) of
                     ((g, c1), _) \<Rightarrow>
                       (let w3 = w2\<lparr>px_vm := g\<rparr> in
                        case rejected c1 of
                          Some (status, msg) \<Rightarrow> reject_phase env timer status msg w3
                        | None \<Rightarrow> route_phase env timer rq ip body c1 w3)))))"

end
