(* ===== verification/HandlerProps.thy ===== *)
theory HandlerProps
  imports Handler
begin

section \<open>Properties of the request handler\<close>

text \<open>
  What a request may do to the state that outlives it (sent requests, pool, metrics), what it is
  answered with, and in which order the hooks of the plugins run.
\<close>

subsection \<open>Frames of the phases\<close>

lemma timer_op_fields [simp]:
  "px_vm (timer_op t op w) = px_vm w" "px_pool (timer_op t op w) = px_pool w"
  "px_sent (timer_op t op w) = px_sent w" "px_metrics (timer_op t op w) = metric_op t op (px_metrics w)"
  by (simp_all add: timer_op_def)

lemma forward_request_frame:
  assumes "forward_request env method u hs body w = (w', r)"
  shows "px_vm w' = px_vm w" "px_pool w' = px_pool w" "px_metrics w' = px_metrics w"
  using assms by (auto simp: forward_request_def Let_def split: if_splits upstream_answer.splits option.splits)

lemma forward_request_sent:
  assumes "forward_request env method u hs body w = (w', r)"
  shows "px_sent w' = px_sent w \<and> r = None \<or>
    px_sent w' = px_sent w @ [\<lparr>ur_method = method, ur_url = u, ur_headers = hs, ur_body = body\<rparr>] \<and>
    r = (case he_send env \<lparr>ur_method = method, ur_url = u, ur_headers = hs, ur_body = body\<rparr> of
           Answer status rhs (Some b) \<Rightarrow> Some (status, collect_headers env rhs, b)
         | _ \<Rightarrow> None)"
  using assms
  by (auto simp: forward_request_def Let_def split: if_splits upstream_answer.splits option.splits)

lemma respond_phase_frame:
  assumes "respond_phase env timer c status hs body w = (w', r)"
  shows "px_pool w' = px_pool w" "px_sent w' = px_sent w"
    "px_metrics w' = metric_op timer Observe_Duration (px_metrics w)"
  using assms by (auto simp: respond_phase_def Let_def split: prod.splits)

text \<open>The body of the final response is the lossy conversion of the upstream's.\<close>

lemma respond_phase_body:
  assumes "respond_phase env timer c status hs body w = (w', Done r)"
  shows "rp_body r = utf8_lossy body"
proof -
  let ?c1 = "c\<lparr>res_status := status, res_headers := hs, res_body := from_utf8_lossy body\<rparr>"
  let ?run = "run_on_response (he_uni env) (he_vm env) (he_srcs env On_Response) (px_vm w, ?c1)"
  have "fixed_part (snd (px_vm w, ?c1)) = fixed_part ?c1" by simp
  from fixed.kept.inv_run_on_response [OF this]
  have "fixed_part (snd (fst ?run)) = fixed_part ?c1" .
  then have "res_body (snd (fst ?run)) = from_utf8_lossy body" by (simp add: fixed_part_def)
  moreover have "build_response env (snd (fst ?run)) body = Done r"
    using assms by (auto simp: respond_phase_def Let_def split: prod.splits)
  ultimately show ?thesis
    by (auto simp: build_response_def Let_def from_utf8_lossy_def split: if_splits)
qed

subsection \<open>Where a request may go\<close>

text \<open>
  A request that may have been sent for \<open>rq\<close>: method, path and body are those of the client, the
  address headers are set, and the target is alive in the pool.
\<close>

definition sent_for ::
    "http_request \<Rightarrow> string \<Rightarrow> upstream_pool \<Rightarrow> upstream_request \<Rightarrow> bool" where
  "sent_for rq ip pool u \<longleftrightarrow>
     ur_method u = rq_method rq \<and> rq_body rq = Some (ur_body u) \<and>
     hm_get (ur_headers u) ''x-forwarded-for'' = Some ip \<and>
     hm_get (ur_headers u) ''x-proxy'' = Some ''rust-lua-proxy/0.1'' \<and>
     (\<exists>n lb t. hm_get pool n = Some lb \<and> t \<in> set (dyn_targets lb) \<and> alive t \<and>
        ur_url u = trim_end_matches CHR ''/'' (url t) @ rq_path rq)"

lemma upstream_headers_get [simp]:
  "hm_get (upstream_headers c ip) ''x-forwarded-for'' = Some ip"
  "hm_get (upstream_headers c ip) ''x-proxy'' = Some ''rust-lua-proxy/0.1''"
  by (simp_all add: upstream_headers_def store_simps)

lemma next_url_target:
  assumes "next_url n key pool = (Some u, pool')"
  shows "\<exists>m lb t. hm_get pool m = Some lb \<and> t \<in> set (dyn_targets lb) \<and> alive t \<and> url t = u"
proof -
  from assms obtain m lb where look: "pool_lookup n pool = Some (m, lb)"
    by (auto simp: next_url_def split: option.splits)
  with assms have "fst (dyn_next key lb) = Some u" by (auto simp: next_url_def split: prod.splits)
  with dyn.next_sound obtain t where "t \<in> set (dyn_targets lb)" "alive t" "url t = u" by blast
  with pool_lookup_get [OF look] show ?thesis by blast
qed

text \<open>
  The outcomes of the forwarding phase: no live target (503), nothing came back (502), or an
  answer that goes through the response phase.
\<close>

lemma forward_phase_cases:
  assumes "forward_phase env timer rq ip body c n w = (w', out)" and "rq_body rq = Some body"
  obtains
    (no_target) "fst (next_url n (Some ip) (px_pool w)) = None" "px_sent w' = px_sent w"
      "out = respond_error env 503 ''Service Unavailable''"
  | (not_sent) "px_sent w' = px_sent w" "out = respond_error env 502 ''Bad Gateway''"
  | (no_answer) u where "px_sent w' = px_sent w @ [u]" "sent_for rq ip (px_pool w) u"
      "\<And>status hs b. he_send env u \<noteq> Answer status hs (Some b)"
      "out = respond_error env 502 ''Bad Gateway''"
  | (answered) u status hs b c' w1 where "px_sent w' = px_sent w @ [u]" "sent_for rq ip (px_pool w) u"
      "he_send env u = Answer status hs (Some b)"
      "respond_phase env timer c' status (collect_headers env hs) b w1 = (w', out)"
proof (cases "next_url n (Some ip) (px_pool w)")
  case (Pair t pool)
  show thesis
  proof (cases t)
    case None
    with Pair assms(1) show thesis by (intro no_target) (auto simp: forward_phase_def)
  next
    case (Some tu)
    let ?u = "\<lparr>ur_method = rq_method rq, ur_url = trim_end_matches CHR ''/'' tu @ rq_path rq,
      ur_headers = upstream_headers c ip, ur_body = body\<rparr>"
    obtain w1 r where fwd: "forward_request env (rq_method rq) (trim_end_matches CHR ''/'' tu @ rq_path rq)
        (upstream_headers c ip) body (w\<lparr>px_pool := pool\<rparr>) = (w1, r)" by (metis prod.exhaust)
    have sent: "sent_for rq ip (px_pool w) ?u"
      using next_url_target [of n "Some ip" "px_pool w" tu pool] Pair Some assms(2)
      by (fastforce simp: sent_for_def)
    consider "px_sent w1 = px_sent w" "r = None"
      | "px_sent w1 = px_sent w @ [?u]" "r = (case he_send env ?u of
           Answer status rhs (Some b) \<Rightarrow> Some (status, collect_headers env rhs, b) | _ \<Rightarrow> None)"
      using forward_request_sent [OF fwd] by auto
    then show thesis
    proof cases
      case 1
      with assms(1) Pair Some fwd show thesis by (intro not_sent) (auto simp: forward_phase_def)
    next
      case 2
      show thesis
      proof (cases r)
        case None
        with assms(1) Pair Some fwd 2 sent show thesis
          by (intro no_answer [of ?u]) (auto simp: forward_phase_def split: option.splits upstream_answer.splits)
      next
        case (Some res)
        with 2(2) obtain status hs b where res: "res = (status, collect_headers env hs, b)"
          and ans: "he_send env ?u = Answer status hs (Some b)"
          by (auto split: upstream_answer.splits option.splits)
        with assms(1) Pair \<open>t = Some tu\<close> fwd Some
        have resp: "respond_phase env timer c status (collect_headers env hs) b w1 = (w', out)"
          by (simp add: forward_phase_def)
        from resp 2(1) sent ans show thesis
          by (intro answered [of ?u]) (auto simp: respond_phase_frame)
      qed
    qed
  qed
qed

lemma forward_phase_metrics:
  assumes "forward_phase env timer rq ip body c n w = (w', out)"
  shows "px_metrics w' = metric_op timer Observe_Duration (px_metrics w)"
  using assms
  by (auto simp: forward_phase_def split: prod.splits option.splits
      dest!: forward_request_frame(3) respond_phase_frame(3))

subsection \<open>The three ways through \<open>handle_request\<close>\<close>

definition begun :: "http_request \<Rightarrow> 'g proxy_state \<Rightarrow> 'g proxy_state" where
  "begun rq w = w\<lparr>px_metrics := metric_op (req_duration 0) Start_Timer
     (metric_op (req_counter 0) (Inc_Label (rq_method rq)) (px_metrics w))\<rparr>"

text \<open>The context a request starts with, and the run of the \<open>on_request\<close> hooks on it.\<close>

definition first_ctx :: "('g, 'f) handler_env \<Rightarrow> string \<Rightarrow> http_request \<Rightarrow> byte list \<Rightarrow> request_ctx" where
  "first_ctx env peer rq body =
     (let headers = collect_headers env (rq_headers rq)
      in RequestCtx_new (rq_method rq) (rq_path rq) headers (from_utf8_lossy body) (request_ip headers peer))"

definition after_on_request ::
    "('g, 'f) handler_env \<Rightarrow> string \<Rightarrow> http_request \<Rightarrow> byte list \<Rightarrow> 'g \<Rightarrow> 'g engine_state" where
  "after_on_request env peer rq body g =
     fst (run_on_request (he_uni env) (he_vm env) (he_srcs env On_Request) (g, first_ctx env peer rq body))"

lemma begun_fields [simp]:
  "px_vm (begun rq w) = px_vm w" "px_pool (begun rq w) = px_pool w" "px_sent (begun rq w) = px_sent w"
  by (simp_all add: begun_def)

lemma handle_request_ready:
  assumes "metrics_ready (px_metrics w)"
  shows "handle_request env peer rq w =
    (case rq_body rq of
       None \<Rightarrow> (timer_op (req_duration 0) Drop_Timer (begun rq w), Failed)
     | Some body \<Rightarrow>
         (case after_on_request env peer rq body (px_vm w) of
            (g, c) \<Rightarrow>
              (case rejected c of
                 Some (status, msg) \<Rightarrow>
                   reject_phase env (req_duration 0) status msg ((begun rq w)\<lparr>px_vm := g\<rparr>)
               | None \<Rightarrow>
                   route_phase env (req_duration 0) rq (request_ip (collect_headers env (rq_headers rq)) peer)
                     body c ((begun rq w)\<lparr>px_vm := g\<rparr>))))"
  using assms
  by (simp add: handle_request_def count_request_ready start_timer_ready begun_def after_on_request_def
      first_ctx_def Let_def split: option.split prod.split)

lemma reject_phase_ready:
  "metrics_ready (px_metrics w) \<Longrightarrow>
     reject_phase env timer status msg w =
       (w\<lparr>px_metrics := metric_op (req_counter 0) (Inc_Label ''rejected'')
           (metric_op timer Observe_Duration (px_metrics w))\<rparr>, respond_error env status msg)"
  by (simp add: reject_phase_def timer_op_def count_request_ready Let_def)

lemma metrics_ready_begun [simp]: "metrics_ready (px_metrics (begun rq w)) = metrics_ready (px_metrics w)"
  by (simp add: begun_def)

lemma route_phase_forwards:
  assumes "route_phase env timer rq ip body c w = (w', out)"
  obtains c' n g where "forward_phase env timer rq ip body c' n (w\<lparr>px_vm := g\<rparr>) = (w', out)"
  using assms by (auto simp: route_phase_def split: prod.splits)

lemma route_phase_metrics:
  assumes "route_phase env timer rq ip body c w = (w', out)"
  shows "px_metrics w' = metric_op timer Observe_Duration (px_metrics w)"
  using assms by (rule route_phase_forwards) (auto dest: forward_phase_metrics)

lemma respond_error_simps [simp]:
  "respond_error env status msg \<noteq> Failed"
  "respond_error env status msg = Panic \<longleftrightarrow> \<not> he_status_ok env status"
  "respond_error env status msg = Done r \<longleftrightarrow> he_status_ok env status \<and>
     r = \<lparr>rp_status = status, rp_headers = [(''content-type'', ''application/json'')],
          rp_body = as_bytes (error_body status msg)\<rparr>"
  by (auto simp: respond_error_def error_response_def)

lemma respond_phase_no_panic: "respond_phase env timer c status hs b w = (w', out) \<Longrightarrow> out \<noteq> Panic"
  by (auto simp: respond_phase_def build_response_def Let_def split: prod.splits if_splits)

lemma forward_phase_panic:
  assumes "he_status_ok env 502" and "he_status_ok env 503" and "rq_body rq = Some body"
  shows "snd (forward_phase env timer rq ip body c n w) \<noteq> Panic"
proof -
  obtain w' out where fw: "forward_phase env timer rq ip body c n w = (w', out)" by (metis prod.exhaust)
  from this assms(3) have "out \<noteq> Panic"
    by (cases rule: forward_phase_cases) (use assms(1,2) in \<open>auto dest: respond_phase_no_panic\<close>)
  with fw show ?thesis by simp
qed

lemma handle_request_cases:
  assumes "metrics_ready (px_metrics w)" and "handle_request env peer rq w = (w', out)"
  obtains
    (unreadable) "rq_body rq = None" "out = Failed"
      "w' = timer_op (req_duration 0) Drop_Timer (begun rq w)"
  | (rejection) body g c status msg where "rq_body rq = Some body"
      "after_on_request env peer rq body (px_vm w) = (g, c)" "rejected c = Some (status, msg)"
      "px_sent w' = px_sent w" "out = respond_error env status msg"
      "px_metrics w' = metric_op (req_counter 0) (Inc_Label ''rejected'')
         (metric_op (req_duration 0) Observe_Duration (px_metrics (begun rq w)))"
  | (forwarding) body g c c' n g' where "rq_body rq = Some body"
      "after_on_request env peer rq body (px_vm w) = (g, c)" "rejected c = None"
      "forward_phase env (req_duration 0) rq (request_ip (collect_headers env (rq_headers rq)) peer)
         body c' n ((begun rq w)\<lparr>px_vm := g'\<rparr>) = (w', out)"
proof (cases "rq_body rq")
  case None
  with assms show thesis by (intro unreadable) (simp_all add: handle_request_ready)
next
  case (Some body)
  obtain g c where run: "after_on_request env peer rq body (px_vm w) = (g, c)" by (metis prod.exhaust)
  show thesis
  proof (cases "rejected c")
    case None
    with assms Some run have "route_phase env (req_duration 0) rq
        (request_ip (collect_headers env (rq_headers rq)) peer) body c ((begun rq w)\<lparr>px_vm := g\<rparr>) = (w', out)"
      by (simp add: handle_request_ready)
    then obtain c' n g' where "forward_phase env (req_duration 0) rq
        (request_ip (collect_headers env (rq_headers rq)) peer) body c' n
        ((begun rq w)\<lparr>px_vm := g, px_vm := g'\<rparr>) = (w', out)"
      by (rule route_phase_forwards)
    with Some run None show thesis by (intro forwarding [of body g c c' n g']) simp_all
  next
    case (Some r)
    obtain status msg where r: "r = (status, msg)" by (cases r)
    with assms \<open>rq_body rq = Some body\<close> run Some show thesis
      by (intro rejection [of body g c status msg]) (auto simp: handle_request_ready reject_phase_ready)
  qed
qed

lemma forward_phase_pool:
  assumes "forward_phase env timer rq ip body c n w = (w', out)"
  shows "px_pool w' = snd (next_url n (Some ip) (px_pool w))"
  using assms
  by (auto simp: forward_phase_def split: prod.splits option.splits
      dest!: forward_request_frame(2) respond_phase_frame(1))

text \<open>What every request keeps: the metrics stay set up, the pool keeps its shape and flags.\<close>

lemma handle_request_keeps:
  assumes "metrics_ready (px_metrics w)" and "handle_request env peer rq w = (w', out)"
  shows "metrics_ready (px_metrics w')" and "pool_shape (px_pool w') = pool_shape (px_pool w)"
    and "flag (px_pool w') n i = flag (px_pool w) n i"
proof -
  have "metrics_ready (px_metrics w') \<and> (px_pool w' = px_pool w \<or> (\<exists>m key. px_pool w' = snd (next_url m key (px_pool w))))"
  proof (rule handle_request_cases [OF assms])
    fix body g c status msg
    assume "rq_body rq = Some body" "after_on_request env peer rq body (px_vm w) = (g, c)"
      "rejected c = Some (status, msg)"
    with assms show ?thesis by (auto simp: handle_request_ready reject_phase_ready)
  next
    fix body g c c' n g'
    assume "forward_phase env (req_duration 0) rq (request_ip (collect_headers env (rq_headers rq)) peer)
       body c' n ((begun rq w)\<lparr>px_vm := g'\<rparr>) = (w', out)"
    with assms(1) forward_phase_metrics [OF this] forward_phase_pool [OF this] show ?thesis by auto
  qed (use assms(1) in auto)
  then show "metrics_ready (px_metrics w')" "pool_shape (px_pool w') = pool_shape (px_pool w)"
    "flag (px_pool w') n i = flag (px_pool w) n i"
    by (auto simp: flag_next)
qed

lemma handle_request_panic:
  assumes "metrics_ready (px_metrics w)" and "he_status_ok env 502" and "he_status_ok env 503"
  shows "snd (handle_request env peer rq w) = Panic \<longleftrightarrow>
    (\<exists>body status msg. rq_body rq = Some body \<and>
       rejected (snd (after_on_request env peer rq body (px_vm w))) = Some (status, msg) \<and>
       \<not> he_status_ok env status)"
proof -
  obtain w' out where run: "handle_request env peer rq w = (w', out)" by (metis prod.exhaust)
  from assms(1) run show ?thesis
  proof (cases rule: handle_request_cases)
    case (forwarding body g c c' n g')
    with forward_phase_panic [OF assms(2,3) forwarding(1)] run show ?thesis by (metis option.distinct(1) option.inject snd_conv)
  qed (use run in auto)
qed

subsection \<open>A sample proxy\<close>

text \<open>
  A concrete environment on which the properties are evaluated: every check of the libraries
  passes, a status is valid between 100 and 999, plugins are those of \<open>script_vm\<close>, and one upstream
  serves \<open>default\<close>.
\<close>

definition sample_env ::
    "(string \<Rightarrow> (string \<times> script_fn) list option) \<Rightarrow> plugin_sources \<Rightarrow> (upstream_request \<Rightarrow> upstream_answer) \<Rightarrow>
      (script_state, script_fn) handler_env" where
  "sample_env prog srcs send =
     \<lparr>he_uni = (\<lambda>s. s), he_to_str = from_utf8, he_uri_ok = (\<lambda>_. True), he_method_ok = (\<lambda>_. True),
      he_name_ok = (\<lambda>_. True), he_value_ok = (\<lambda>_. True), he_status_ok = (\<lambda>st. 100 \<le> st \<and> st < 1000),
      he_send = send, he_vm = script_vm prog, he_srcs = (\<lambda>_. srcs)\<rparr>"

definition sample_state :: "script_state proxy_state" where
  "sample_state =
     \<lparr>px_vm = [],
      px_pool = [(''default'', Dyn_Round_Robin (RoundRobin_new [Target_new ''http://10.0.0.7:3000/'']))],
      px_metrics = metrics_init metrics_start, px_sent = []\<rparr>"

definition sample_request :: http_request where
  "sample_request =
     \<lparr>rq_method = ''GET'', rq_path = ''/v2/items'', rq_query = Some ''page=2'',
      rq_headers = [(''x-real-ip'', as_bytes ''127.0.0.1'')], rq_body = Some []\<rparr>"

definition no_plugins :: plugin_sources where
  "no_plugins = \<lparr>ps_pipeline = [], ps_sources = []\<rparr>"

lemma sample_ready [simp]: "metrics_ready (px_metrics sample_state)"
  by (simp add: sample_state_def metrics_init_start)

lemma sample_sent: "px_sent sample_state = []"
  by (simp add: sample_state_def)

lemma no_plugins_runs [simp]:
  "run_on_request uni vm no_plugins s = (s, Inr ())"
  "run_on_route uni vm no_plugins s = (s, Inr (hm_get (vars (snd s)) upstream_var))"
  "run_on_transform uni vm no_plugins s = (s, Inr ())"
  "run_on_response uni vm no_plugins s = (s, Inr ())"
  by (simp_all add: run_on_request_def run_on_route_def run_on_transform_def run_on_response_def no_plugins_def)

lemma sample_headers:
  "collect_headers (sample_env prog srcs send) (rq_headers sample_request) = [(''x-real-ip'', ''127.0.0.1'')]"
proof -
  have "from_utf8 (as_bytes ''127.0.0.1'') = Some ''127.0.0.1''" by code_simp
  moreover have "to_lowercase (\<lambda>s. s) ''x-real-ip'' = ''x-real-ip''" by code_simp
  ultimately show ?thesis
    by (simp add: collect_headers_def add_header_def sample_env_def sample_request_def hm_insert_def hm_new_def)
qed

lemma sample_ip: "request_ip [(''x-real-ip'', ''127.0.0.1'')] peer = ''127.0.0.1''"
  by (simp add: request_ip_def hm_get_def)

lemma sample_body: "rq_body sample_request = Some []" "rq_method sample_request = ''GET''"
    "rq_path sample_request = ''/v2/items''"
  by (simp_all add: sample_request_def)

lemma sample_ctx:
  "first_ctx (sample_env prog srcs send) peer sample_request [] =
     RequestCtx_new ''GET'' ''/v2/items'' [(''x-real-ip'', ''127.0.0.1'')] [] ''127.0.0.1''"
  by (simp add: first_ctx_def sample_headers sample_ip sample_body from_utf8_lossy_def Let_def)

lemma sample_env_fields [simp]:
  "he_uni (sample_env prog srcs send) = (\<lambda>s. s)" "he_vm (sample_env prog srcs send) = script_vm prog"
  "he_srcs (sample_env prog srcs send) st = srcs" "he_send (sample_env prog srcs send) = send"
  "he_uri_ok (sample_env prog srcs send) u" "he_method_ok (sample_env prog srcs send) u"
  "headers_valid (sample_env prog srcs send) hs"
  "he_status_ok (sample_env prog srcs send) st' \<longleftrightarrow> 100 \<le> st' \<and> st' < 1000"
  by (simp_all add: sample_env_def headers_valid_def list_all_iff)

lemma sample_next:
  "\<exists>pool. next_url n key (px_pool sample_state) = (Some ''http://10.0.0.7:3000/'', pool)"
  by (simp add: next_url_def pool_lookup_def sample_state_def hm_get_def round_robin_next_def
      RoundRobin_new_def Target_new_def Let_def)

lemma sample_trim: "trim_end_matches CHR ''/'' ''http://10.0.0.7:3000/'' = ''http://10.0.0.7:3000''"
  by (simp add: trim_end_matches_def)

text \<open>The sample request without plugins: one request upstream, answered by \<open>send\<close>.\<close>

definition sample_upstream :: upstream_request where
  "sample_upstream =
     \<lparr>ur_method = ''GET'', ur_url = ''http://10.0.0.7:3000/v2/items'',
      ur_headers = [(''x-real-ip'', ''127.0.0.1''), (''x-forwarded-for'', ''127.0.0.1''),
                    (''x-proxy'', ''rust-lua-proxy/0.1'')],
      ur_body = []\<rparr>"

lemma sample_forward:
  fixes prog send peer
  defines "env \<equiv> sample_env prog no_plugins send"
  defines "run \<equiv> handle_request env peer sample_request sample_state"
  shows "px_sent (fst run) = [sample_upstream]"
    and "snd run = (case send sample_upstream of
       Answer st hs (Some b) \<Rightarrow>
         (if 100 \<le> st \<and> st < 1000
          then Done \<lparr>rp_status = st, rp_headers = collect_headers env hs, rp_body = utf8_lossy b\<rparr>
          else Failed)
     | _ \<Rightarrow> respond_error env 502 ''Bad Gateway'')"
proof -
  obtain pool where nxt: "next_url ''default'' (Some ''127.0.0.1'') (px_pool sample_state) =
      (Some ''http://10.0.0.7:3000/'', pool)" using sample_next by blast
  let ?c = "RequestCtx_new ''GET'' ''/v2/items'' [(''x-real-ip'', ''127.0.0.1'')] [] ''127.0.0.1''"
  have ctx: "rejected ?c = None" "vars ?c = hm_new" by (simp_all add: RequestCtx_new_def)
  have vm: "px_vm sample_state = []" by (simp add: sample_state_def)
  have up: "\<lparr>ur_method = ''GET'', ur_url = trim_end_matches CHR ''/'' ''http://10.0.0.7:3000/'' @ ''/v2/items'',
      ur_headers = upstream_headers ?c ''127.0.0.1'', ur_body = []\<rparr> = sample_upstream"
    by (simp add: sample_upstream_def sample_trim upstream_headers_def RequestCtx_new_def hm_insert_def)
  have sent: "px_sent sample_state = []" by (simp add: sample_state_def)
  have run: "run = forward_phase env (req_duration 0) sample_request ''127.0.0.1'' [] ?c ''default''
      ((begun sample_request sample_state)\<lparr>px_vm := []\<rparr>)"
    by (simp add: run_def env_def handle_request_ready sample_body after_on_request_def sample_ctx
        sample_headers sample_ip ctx route_phase_def store_simps vm)
  show "px_sent (fst run) = [sample_upstream]"
    by (simp add: run forward_phase_def nxt forward_request_def sample_body up env_def sent
        respond_phase_def Let_def split: upstream_answer.split option.split)
  show "snd run = (case send sample_upstream of
       Answer st hs (Some b) \<Rightarrow>
         (if 100 \<le> st \<and> st < 1000
          then Done \<lparr>rp_status = st, rp_headers = collect_headers env hs, rp_body = utf8_lossy b\<rparr>
          else Failed)
     | _ \<Rightarrow> respond_error env 502 ''Bad Gateway'')"
    by (auto simp: run forward_phase_def nxt forward_request_def sample_body up env_def sent
        respond_phase_def build_response_def from_utf8_lossy_def Let_def
        split: upstream_answer.split option.split)
qed

subsection \<open>Rejections after \<open>on_request\<close>\<close>

text \<open>
  The handler looks at \<open>rejected\<close> once, after the \<open>on_request\<close> hooks. A plugin that calls
  \<open>reject\<close> in a later hook, with whatever status, has no effect on the request: it is sent
  upstream, the upstream's answer is delivered, and an invalid status causes no panic. The
  pipeline below is one plugin, which rejects in the hook \<open>h\<close>.
\<close>

definition rejecting_vm :: "string \<Rightarrow> u16 \<Rightarrow> string \<Rightarrow> string \<Rightarrow> (string \<times> script_fn) list option" where
  "rejecting_vm h status msg src = Some [(h, \<lambda>c. ([Reject status msg], Ret_Nil))]"

definition one_plugin :: plugin_sources where
  "one_plugin = \<lparr>ps_pipeline = [''p''], ps_sources = [(''p'', ''P'')]\<rparr>"

lemma one_plugin_hook:
  "plugin_hook uni (script_vm (rejecting_vm h status msg)) one_plugin hook ''p'' (g, c) =
     (((h, \<lambda>c. ([Reject status msg], Ret_Nil)) # g, c),
      map_of ((h, \<lambda>c. ([Reject status msg], Ret_Nil)) # g) hook)"
  by (simp add: plugin_hook_def load_plugin_def one_plugin_def script_vm_def rejecting_vm_def hm_get_def
      apply_calls_def)

lemma one_plugin_call:
  "call_hook uni (script_vm prog) (\<lambda>c. ([Reject status msg], Ret_Nil)) (g, c) =
     ((g, c\<lparr>rejected := Some (status, msg)\<rparr>), Ret_Nil)"
  by (simp add: call_hook_def script_vm_def apply_calls_def ctx_reject_def)

lemmas one_plugin_turns = request_plugin_def route_plugin_def transform_plugin_def response_plugin_def
  one_plugin_hook one_plugin_call

lemma one_plugin_runs:
  fixes h status msg uni
  defines "vm \<equiv> script_vm (rejecting_vm h status msg)"
    and "def \<equiv> (h, \<lambda>c. ([Reject status msg], Ret_Nil))"
  shows "h \<noteq> ''on_request'' \<Longrightarrow> map_of g ''on_request'' = None \<Longrightarrow>
      run_on_request uni vm one_plugin (g, c) = ((def # g, c), Inr ())"
    and "h \<noteq> ''on_route'' \<Longrightarrow> map_of g ''on_route'' = None \<Longrightarrow>
      run_on_route uni vm one_plugin (g, c) = ((def # g, c), Inr (hm_get (vars c) upstream_var))"
    and "h = ''on_route'' \<Longrightarrow> run_on_route uni vm one_plugin (g, c) =
      ((def # g, c\<lparr>rejected := Some (status, msg)\<rparr>), Inr (hm_get (vars c) upstream_var))"
    and "h \<noteq> ''on_transform'' \<Longrightarrow> map_of g ''on_transform'' = None \<Longrightarrow>
      run_on_transform uni vm one_plugin (g, c) = ((def # g, c), Inr ())"
    and "h = ''on_transform'' \<Longrightarrow> run_on_transform uni vm one_plugin (g, c) =
      ((def # g, c\<lparr>rejected := Some (status, msg)\<rparr>), Inr ())"
    and "h \<noteq> ''on_response'' \<Longrightarrow> map_of g ''on_response'' = None \<Longrightarrow>
      run_on_response uni vm one_plugin (g, c) = ((def # g, c), Inr ())"
    and "h = ''on_response'' \<Longrightarrow> run_on_response uni vm one_plugin (g, c) =
      ((def # g, c\<lparr>rejected := Some (status, msg)\<rparr>), Inr ())"
  unfolding vm_def def_def run_on_request_def run_on_route_def run_on_transform_def run_on_response_def
  by (simp_all add: one_plugin_def [THEN arg_cong, of ps_pipeline] one_plugin_turns)

theorem late_rejection_ignored:
  fixes h status msg b peer
  defines "env \<equiv> sample_env (rejecting_vm h status msg) one_plugin (\<lambda>_. Answer 200 [] (Some b))"
  assumes "h \<in> {''on_route'', ''on_transform'', ''on_response''}"
  shows "px_sent (fst (handle_request env peer sample_request sample_state)) = [sample_upstream] \<and>
    snd (handle_request env peer sample_request sample_state) =
      Done \<lparr>rp_status = 200, rp_headers = [], rp_body = utf8_lossy b\<rparr>"
proof -
  obtain pool where nxt: "next_url ''default'' (Some ''127.0.0.1'') (px_pool sample_state) =
      (Some ''http://10.0.0.7:3000/'', pool)" using sample_next by blast
  let ?c = "RequestCtx_new ''GET'' ''/v2/items'' [(''x-real-ip'', ''127.0.0.1'')] [] ''127.0.0.1''"
  have ctx: "rejected ?c = None" "vars ?c = hm_new" by (simp_all add: RequestCtx_new_def)
  have vm: "px_vm sample_state = []" and sent: "px_sent sample_state = []" by (simp_all add: sample_state_def)
  have up: "\<lparr>ur_method = ''GET'', ur_url = trim_end_matches CHR ''/'' ''http://10.0.0.7:3000/'' @ ''/v2/items'',
      ur_headers = upstream_headers ?c ''127.0.0.1'', ur_body = []\<rparr> = sample_upstream"
    by (simp add: sample_upstream_def sample_trim upstream_headers_def RequestCtx_new_def hm_insert_def)
  have up': "upstream_headers (c\<lparr>rejected := r\<rparr>) ip = upstream_headers c ip" for c r ip
    by (simp add: upstream_headers_def)
  have hs: "collect_headers e [] = []" for e :: "(script_state, script_fn) handler_env" by (simp add: collect_headers_def hm_new_def)
  from assms(2) consider "h = ''on_route''" | "h = ''on_transform''" | "h = ''on_response''" by blast
  then show ?thesis
    by cases
      (simp_all add: env_def handle_request_ready sample_body after_on_request_def sample_ctx
        sample_headers sample_ip ctx route_phase_def store_simps vm one_plugin_runs
        forward_phase_def nxt forward_request_def up up' sent
        respond_phase_def build_response_def from_utf8_lossy_def hs Let_def)
qed

subsection \<open>Properties\<close>

text \<open>
  C1. What leaves the proxy: a request is sent upstream at most once; what is sent has the
  client's method, path (without the query string) and body bytes, whatever the plugins did; it
  goes to a live target of the pool; its \<open>x-forwarded-for\<close> is the address the client's own headers
  claim, if they claim one; and nothing is sent when the request stands rejected after the
  \<open>on_request\<close> hooks. (A rejection in a later hook does not stop it: \<open>late_rejection_ignored\<close>.)
\<close>

theorem forwarded_request:
  assumes "metrics_ready (px_metrics w)"
    and "handle_request env peer rq w = (w', out)"
  shows "px_sent w' = px_sent w \<or>
    (\<exists>u body. px_sent w' = px_sent w @ [u] \<and> rq_body rq = Some body \<and>
       sent_for rq (request_ip (collect_headers env (rq_headers rq)) peer) (px_pool w) u \<and>
       rejected (snd (after_on_request env peer rq body (px_vm w))) = None)"
  using assms
proof (cases rule: handle_request_cases)
  case (forwarding body g c c' n g')
  from forwarding(4,1) show ?thesis
    by (cases rule: forward_phase_cases) (use forwarding in auto)
qed simp_all

theorem forwarded_request_witness:
  "\<exists>u. px_sent (fst (handle_request (sample_env (\<lambda>_. None) no_plugins (\<lambda>_. No_Answer)) ''10.1.1.1''
      sample_request sample_state)) = [u] \<and> ur_method u = ''GET'' \<and> ur_body u = [] \<and>
     hm_get (ur_headers u) ''x-forwarded-for'' = Some ''127.0.0.1''"
  using forwarded_request [OF sample_ready surjective_pairing, of "sample_env (\<lambda>_. None) no_plugins (\<lambda>_. No_Answer)"
      "''10.1.1.1''" sample_request]
  by (auto simp: sample_forward sent_for_def sample_body sample_headers sample_ip sample_sent)

text \<open>
  C6. A request that stands rejected when the \<open>on_request\<close> hooks are done: the answer is the JSON
  error with the status and message of the last rejection, nothing is sent and no target is selected. If that status is not a valid HTTP
  status the answer is a panic.
\<close>

theorem rejected_request:
  assumes "metrics_ready (px_metrics w)" and "rq_body rq = Some body"
    and "after_on_request env peer rq body (px_vm w) = (g, c)" and "rejected c = Some (status, msg)"
  shows "case handle_request env peer rq w of (w', out) \<Rightarrow>
    px_sent w' = px_sent w \<and> px_pool w' = px_pool w \<and> px_vm w' = g \<and>
    out = (if he_status_ok env status
           then Done \<lparr>rp_status = status, rp_headers = [(''content-type'', ''application/json'')],
                      rp_body = as_bytes (error_body status msg)\<rparr>
           else Panic)"
  using assms by (simp add: handle_request_ready reject_phase_ready respond_error_def error_response_def)

theorem rejected_request_witness:
  "snd (handle_request
     (sample_env (\<lambda>_. Some [(''on_request'', \<lambda>c. ([Reject 403 ''no'', Reject 99 ''gone''], Ret_Nil))])
        \<lparr>ps_pipeline = [''ip_filter''], ps_sources = [(''ip_filter'', ''I'')]\<rparr> (\<lambda>_. No_Answer))
     ''10.1.1.1'' sample_request sample_state) = Panic"
proof -
  let ?env = "sample_env (\<lambda>_. Some [(''on_request'', \<lambda>c. ([Reject 403 ''no'', Reject 99 ''gone''], Ret_Nil))])
        \<lparr>ps_pipeline = [''ip_filter''], ps_sources = [(''ip_filter'', ''I'')]\<rparr> (\<lambda>_. No_Answer)"
  have "rejected (snd (after_on_request ?env ''10.1.1.1'' sample_request [] (px_vm sample_state))) = Some (99, ''gone'')"
    by (simp add: after_on_request_def run_on_request_def request_plugin_def plugin_hook_def load_plugin_def
        call_hook_def script_vm_def hm_get_def apply_calls_def ctx_reject_def)
  from rejected_request [OF sample_ready sample_body(1) surjective_pairing this]
  show ?thesis by (simp split: prod.splits)
qed

text \<open>
  C7. A response the upstream has given: its body reaches the client as \<open>from_utf8_lossy\<close> left it,
  whatever the plugins do, and so unchanged iff it is valid UTF-8. Binary content is damaged.
\<close>

theorem response_body_lossy:
  assumes "metrics_ready (px_metrics w)"
    and "handle_request env peer rq w = (w', Done r)"
    and "px_sent w' = px_sent w @ [u]" and "he_send env u = Answer status hs (Some b)"
  shows "rp_body r = utf8_lossy b \<and> (rp_body r = b \<longleftrightarrow> utf8_valid b)"
proof -
  from assms(1,2) have "rp_body r = utf8_lossy b"
  proof (cases rule: handle_request_cases)
    case (forwarding body g c c' n g')
    from forwarding(4,1) show ?thesis
      by (cases rule: forward_phase_cases) (use assms(3,4) in \<open>auto dest: respond_phase_body\<close>)
  qed (use assms(3) in auto)
  then show ?thesis by (simp add: utf8_lossy_id_iff)
qed

theorem response_body_lossy_witness:
  "\<exists>r. snd (handle_request (sample_env (\<lambda>_. None) no_plugins (\<lambda>_. Answer 200 [] (Some [0xFF, 0xD8])))
      ''10.1.1.1'' sample_request sample_state) = Done r \<and> rp_body r \<noteq> [0xFF, 0xD8]"
proof -
  let ?env = "sample_env (\<lambda>_. None) no_plugins (\<lambda>_. Answer 200 [] (Some [0xFF, 0xD8]))"
  let ?run = "handle_request ?env ''10.1.1.1'' sample_request sample_state"
  obtain r where r: "snd ?run = Done r" by (simp add: sample_forward)
  have "\<not> utf8_valid [0xFF, 0xD8]" by code_simp
  with response_body_lossy [of sample_state ?env "''10.1.1.1''" sample_request "fst ?run" r sample_upstream] r
  show ?thesis by (auto simp: sample_forward sample_sent prod_eq_iff)
qed

text \<open>
  C17. The metrics of one request: its method is counted once, a request rejected by
  \<open>on_request\<close> is counted a second time under the label \<open>rejected\<close> (so the counter does not add up to the number of
  requests), no other label changes, and the duration is reported exactly once on every path.
\<close>

theorem request_metrics:
  assumes "metrics_ready (px_metrics w)" and "handle_request env peer rq w = (w', out)"
  shows "metrics_ready (px_metrics w') \<and>
    label_count l (px_metrics w') = label_count l (px_metrics w) +
      (if l = rq_method rq then 1 else 0) +
      (case rq_body rq of None \<Rightarrow> 0 | Some body \<Rightarrow>
         if l = ''rejected'' \<and> is_rejected (snd (after_on_request env peer rq body (px_vm w))) then 1 else 0) \<and>
    ops_on (req_duration 0) (mt_log (px_metrics w')) =
      ops_on (req_duration 0) (mt_log (px_metrics w)) @
        [Start_Timer, if rq_body rq = None then Drop_Timer else Observe_Duration]"
proof (rule handle_request_cases [OF assms])
  assume "rq_body rq = None" and "w' = timer_op (req_duration 0) Drop_Timer (begun rq w)"
  with assms show ?thesis by (simp add: label_count_def begun_def ops_on_def)
next
  fix body g c status msg
  assume "rq_body rq = Some body" "after_on_request env peer rq body (px_vm w) = (g, c)"
    "rejected c = Some (status, msg)"
    "px_metrics w' = metric_op (req_counter 0) (Inc_Label ''rejected'')
       (metric_op (req_duration 0) Observe_Duration (px_metrics (begun rq w)))"
  with assms show ?thesis by (simp add: label_count_def begun_def ops_on_def is_rejected_def)
next
  fix body g c c' n g'
  assume "rq_body rq = Some body" "after_on_request env peer rq body (px_vm w) = (g, c)" "rejected c = None"
    "forward_phase env (req_duration 0) rq (request_ip (collect_headers env (rq_headers rq)) peer)
       body c' n ((begun rq w)\<lparr>px_vm := g'\<rparr>) = (w', out)"
  with assms forward_phase_metrics [OF this(4)] show ?thesis
    by (simp add: label_count_def begun_def ops_on_def is_rejected_def)
qed

theorem request_metrics_witness:
  "label_count ''rejected'' (px_metrics (fst (handle_request
     (sample_env (\<lambda>_. Some [(''on_request'', \<lambda>c. ([Reject 403 ''no''], Ret_Nil))])
        \<lparr>ps_pipeline = [''ip_filter''], ps_sources = [(''ip_filter'', ''I'')]\<rparr> (\<lambda>_. No_Answer))
     ''10.1.1.1'' sample_request sample_state))) = 1"
proof -
  let ?env = "sample_env (\<lambda>_. Some [(''on_request'', \<lambda>c. ([Reject 403 ''no''], Ret_Nil))])
        \<lparr>ps_pipeline = [''ip_filter''], ps_sources = [(''ip_filter'', ''I'')]\<rparr> (\<lambda>_. No_Answer)"
  have "is_rejected (snd (after_on_request ?env ''10.1.1.1'' sample_request [] (px_vm sample_state)))"
    by (simp add: after_on_request_def run_on_request_def request_plugin_def plugin_hook_def load_plugin_def
        call_hook_def script_vm_def hm_get_def apply_calls_def ctx_reject_def is_rejected_def)
  moreover have "label_count l (px_metrics sample_state) = 0" for l
    by (simp add: label_count_def sample_state_def metrics_init_def metrics_start_def ops_on_def Let_def)
  ultimately show ?thesis
    using request_metrics [OF sample_ready surjective_pairing, of ?env "''10.1.1.1''" sample_request "''rejected''"]
    by (simp add: sample_body)
qed

text \<open>
  C18. Failures of the upstream side: a request that \<open>on_request\<close> does not reject and that is not
  sent, or gets no complete answer, is answered with 502 or 503 (503 only if it was not sent).
\<close>

theorem gateway_errors:
  assumes "metrics_ready (px_metrics w)" and "handle_request env peer rq w = (w', out)"
    and "rq_body rq = Some body"
    and "rejected (snd (after_on_request env peer rq body (px_vm w))) = None"
  shows "(px_sent w' = px_sent w \<longrightarrow>
      out \<in> {respond_error env 503 ''Service Unavailable'', respond_error env 502 ''Bad Gateway''}) \<and>
    (\<forall>u. px_sent w' = px_sent w @ [u] \<and> (\<forall>status hs b. he_send env u \<noteq> Answer status hs (Some b)) \<longrightarrow>
      out = respond_error env 502 ''Bad Gateway'')"
  using assms(1,2)
proof (cases rule: handle_request_cases)
  case (forwarding body g c c' n g')
  from forwarding(4,1) show ?thesis by (cases rule: forward_phase_cases) auto
qed (use assms(3,4) in auto)

theorem gateway_errors_witness:
  "snd (handle_request (sample_env (\<lambda>_. None) no_plugins (\<lambda>_. Answer 200 [] None)) ''10.1.1.1''
     sample_request sample_state) =
   respond_error (sample_env (\<lambda>_. None) no_plugins (\<lambda>_. Answer 200 [] None)) 502 ''Bad Gateway''"
proof -
  let ?env = "sample_env (\<lambda>_. None) no_plugins (\<lambda>_. Answer 200 [] None)"
  have "rejected (snd (after_on_request ?env ''10.1.1.1'' sample_request [] (px_vm sample_state))) = None"
    by (simp add: after_on_request_def sample_ctx RequestCtx_new_def)
  from gateway_errors [OF sample_ready surjective_pairing sample_body(1) this]
  show ?thesis by (simp add: sample_forward sample_sent)
qed

text \<open>
  C8. When the task of the connection panics: with the metrics set up, exactly when
  the rejection that stands after the \<open>on_request\<close> hooks has a number that is not a valid HTTP
  status. A rejection in a later hook or an upstream answer never causes a panic.
\<close>

theorem panic_iff:
  assumes "metrics_ready (px_metrics w)" and "he_status_ok env 502" and "he_status_ok env 503"
  shows "snd (handle_request env peer rq w) = Panic \<longleftrightarrow>
    (\<exists>body status msg. rq_body rq = Some body \<and>
       rejected (snd (after_on_request env peer rq body (px_vm w))) = Some (status, msg) \<and>
       \<not> he_status_ok env status)"
  using assms by (rule handle_request_panic)

theorem panic_iff_witness:
  "snd (handle_request (sample_env (\<lambda>_. None) no_plugins (\<lambda>_. Answer 77 [] (Some []))) ''10.1.1.1''
     sample_request sample_state) \<noteq> Panic"
proof -
  let ?env = "sample_env (\<lambda>_. None) no_plugins (\<lambda>_. Answer 77 [] (Some []))"
  have "rejected (snd (after_on_request ?env ''10.1.1.1'' sample_request [] (px_vm sample_state))) = None"
    by (simp add: after_on_request_def sample_ctx RequestCtx_new_def)
  then show ?thesis using panic_iff [OF sample_ready, of ?env "''10.1.1.1''" sample_request] by (simp add: sample_body)
qed

end
