(* ===== verification/HookOrder.thy ===== *)
theory HookOrder
  imports HandlerProps
begin

section \<open>The order of the hooks of a request\<close>

text \<open>
  The handler on the recording virtual machine of \<open>Trace\<close>: it answers as the handler does, and its
  record shows in which order the hooks were called.
\<close>

definition traced_env :: "('g, 'f) handler_env \<Rightarrow> ('g \<times> vm_event list, string \<times> 'f) handler_env" where
  "traced_env env =
     \<lparr>he_uni = he_uni env, he_to_str = he_to_str env, he_uri_ok = he_uri_ok env,
      he_method_ok = he_method_ok env, he_name_ok = he_name_ok env, he_value_ok = he_value_ok env,
      he_status_ok = he_status_ok env, he_send = he_send env, he_vm = tracing (he_vm env),
      he_srcs = he_srcs env\<rparr>"

text \<open>Forgetting the record, and starting with an empty one.\<close>

definition untrace :: "('g \<times> vm_event list) proxy_state \<Rightarrow> 'g proxy_state" where
  "untrace w = \<lparr>px_vm = fst (px_vm w), px_pool = px_pool w, px_metrics = px_metrics w, px_sent = px_sent w\<rparr>"

definition with_trace :: "'g proxy_state \<Rightarrow> ('g \<times> vm_event list) proxy_state" where
  "with_trace w = \<lparr>px_vm = (px_vm w, []), px_pool = px_pool w, px_metrics = px_metrics w, px_sent = px_sent w\<rparr>"

lemma traced_env_fields [simp]:
  "he_uni (traced_env env) = he_uni env" "he_to_str (traced_env env) = he_to_str env"
  "he_uri_ok (traced_env env) = he_uri_ok env" "he_method_ok (traced_env env) = he_method_ok env"
  "he_name_ok (traced_env env) = he_name_ok env" "he_value_ok (traced_env env) = he_value_ok env"
  "he_status_ok (traced_env env) = he_status_ok env" "he_send (traced_env env) = he_send env"
  "he_vm (traced_env env) = tracing (he_vm env)" "he_srcs (traced_env env) = he_srcs env"
  by (simp_all add: traced_env_def)

lemma untrace_fields [simp]:
  "px_vm (untrace w) = fst (px_vm w)" "px_pool (untrace w) = px_pool w"
  "px_metrics (untrace w) = px_metrics w" "px_sent (untrace w) = px_sent w"
  by (simp_all add: untrace_def)

lemma untrace_updates:
  "(untrace w)\<lparr>px_vm := g\<rparr> = untrace (w\<lparr>px_vm := (g, t)\<rparr>)"
  "(untrace w)\<lparr>px_pool := p\<rparr> = untrace (w\<lparr>px_pool := p\<rparr>)"
  "(untrace w)\<lparr>px_metrics := m\<rparr> = untrace (w\<lparr>px_metrics := m\<rparr>)"
  "(untrace w)\<lparr>px_sent := s\<rparr> = untrace (w\<lparr>px_sent := s\<rparr>)"
  by (simp_all add: untrace_def)

lemma untrace_with_trace [simp]: "untrace (with_trace w) = w"
  by (simp add: untrace_def with_trace_def)

lemma timer_op_untrace: "timer_op t op (untrace w) = untrace (timer_op t op w)"
  by (simp add: timer_op_def untrace_updates)

lemma traced_add_header [simp]: "add_header (traced_env env) = add_header env"
  by (intro ext) (simp add: add_header_def split: option.split)

lemma traced_same [simp]:
  "collect_headers (traced_env env) hs = collect_headers env hs"
  "respond_error (traced_env env) status msg = respond_error env status msg"
  "headers_valid (traced_env env) hs' = headers_valid env hs'"
  "build_response (traced_env env) c b = build_response env c b"
  by (simp_all add: collect_headers_def respond_error_def error_response_def
      headers_valid_def build_response_def)

lemma forward_request_untrace:
  "forward_request env m u hs b (untrace w) = apfst untrace (forward_request (traced_env env) m u hs b w)"
  by (auto simp: forward_request_def untrace_updates Let_def split: upstream_answer.split option.split)

text \<open>The hook loops on a state without the record.\<close>

lemma run_untrace:
  "run_on_request uni vm srcs (fst gt, c) = apfst (apfst fst) (run_on_request uni (tracing vm) srcs (gt, c))"
  "run_on_route uni vm srcs (fst gt, c) = apfst (apfst fst) (run_on_route uni (tracing vm) srcs (gt, c))"
  "run_on_transform uni vm srcs (fst gt, c) = apfst (apfst fst) (run_on_transform uni (tracing vm) srcs (gt, c))"
  "run_on_response uni vm srcs (fst gt, c) = apfst (apfst fst) (run_on_response uni (tracing vm) srcs (gt, c))"
  using traced.sim_run_on_request [of uni vm srcs "(gt, c)"] traced.sim_run_on_route [of uni vm srcs "(gt, c)"]
    traced.sim_run_on_transform [of uni vm srcs "(gt, c)"] traced.sim_run_on_response [of uni vm srcs "(gt, c)"]
  by simp_all

lemma respond_phase_untrace:
  "respond_phase env t c st hs b (untrace w) = apfst untrace (respond_phase (traced_env env) t c st hs b w)"
  by (auto simp: respond_phase_def run_untrace Let_def timer_op_untrace [symmetric] untrace_updates
      split: prod.split)

lemma forward_phase_untrace:
  "forward_phase env t rq ip b c n (untrace w) = apfst untrace (forward_phase (traced_env env) t rq ip b c n w)"
  by (auto simp: forward_phase_def forward_request_untrace respond_phase_untrace untrace_updates
      timer_op_untrace split: prod.split option.split)

lemma route_phase_untrace:
  "route_phase env t rq ip b c (untrace w) = apfst untrace (route_phase (traced_env env) t rq ip b c w)"
proof -
  obtain g1 t1 c1 r where r1: "run_on_route (he_uni env) (tracing (he_vm env)) (he_srcs env On_Route) (px_vm w, c) =
      (((g1, t1), c1), r)" by (metis prod.exhaust)
  obtain g2 t2 c2 r2 where r2: "run_on_transform (he_uni env) (tracing (he_vm env)) (he_srcs env On_Transform)
      ((g1, t1), c1) = (((g2, t2), c2), r2)" by (metis prod.exhaust)
  have "run_on_transform (he_uni env) (he_vm env) (he_srcs env On_Transform) (g1, c1) = ((g2, c2), r2)"
    using run_untrace(3) [of "he_uni env" "he_vm env" "he_srcs env On_Transform" "(g1, t1)" c1] r2 by simp
  then show ?thesis
    by (simp add: route_phase_def run_untrace r1 r2 forward_phase_untrace untrace_updates(1) [where g = g2 and t = t2])
qed

lemma reject_phase_untrace:
  "reject_phase env t st msg (untrace w) = apfst untrace (reject_phase (traced_env env) t st msg w)"
  by (simp add: reject_phase_def timer_op_untrace untrace_updates Let_def split: option.split)

lemma phases_untrace_vm:
  "route_phase env t rq ip b c ((untrace w)\<lparr>px_vm := g\<rparr>) =
     apfst untrace (route_phase (traced_env env) t rq ip b c (w\<lparr>px_vm := (g, tr)\<rparr>))"
  "reject_phase env t st msg ((untrace w)\<lparr>px_vm := g\<rparr>) =
     apfst untrace (reject_phase (traced_env env) t st msg (w\<lparr>px_vm := (g, tr)\<rparr>))"
  by (simp_all only: untrace_updates(1) [where t = tr] route_phase_untrace reject_phase_untrace)

lemma handle_request_untrace:
  "handle_request env peer rq (untrace w) = apfst untrace (handle_request (traced_env env) peer rq w)"
  by (auto simp: handle_request_def run_untrace untrace_updates timer_op_untrace Let_def
      intro: phases_untrace_vm split: option.split prod.split)

subsection \<open>Which hooks are called\<close>

fun hook_call :: "vm_event \<Rightarrow> string option" where
  "hook_call (Ev_Call h) = Some h"
| "hook_call (Ev_Load n) = None"

definition hook_calls :: "vm_event list \<Rightarrow> string list" where
  "hook_calls t = List.map_filter hook_call t"

lemma hook_calls_append [simp]: "hook_calls (s @ t) = hook_calls s @ hook_calls t"
  by (simp add: hook_calls_def List.map_filter_def)

lemma trace_ext_calls:
  "trace_ext hook t t' \<Longrightarrow> \<exists>k. hook_calls t' = hook_calls t @ replicate k hook"
proof -
  have "list_all (\<lambda>e. \<forall>h. e = Ev_Call h \<longrightarrow> h = hook) es \<Longrightarrow> \<exists>k. hook_calls es = replicate k hook" for es
  proof (induction es)
    case (Cons e es)
    then obtain k where "hook_calls es = replicate k hook" by auto
    with Cons.prems show ?case
      by (cases e) (auto simp: hook_calls_def List.map_filter_simps intro: exI [of _ k] exI [of _ "Suc k"])
  qed (simp add: hook_calls_def List.map_filter_simps)
  then show "trace_ext hook t t' \<Longrightarrow> ?thesis" unfolding trace_ext_def by fastforce
qed

text \<open>The calls of a traced state.\<close>

definition called :: "('g \<times> vm_event list) proxy_state \<Rightarrow> string list" where
  "called w = hook_calls (snd (px_vm w))"

lemma called_simps [simp]:
  "called (timer_op t op w) = called w" "called (w\<lparr>px_pool := p\<rparr>) = called w"
  "called (w\<lparr>px_metrics := m\<rparr>) = called w" "called (w\<lparr>px_vm := g\<rparr>) = hook_calls (snd g)"
  "called (with_trace w') = []"
  by (simp_all add: called_def with_trace_def) (simp add: hook_calls_def List.map_filter_simps)

lemma respond_phase_called:
  assumes "respond_phase (traced_env env) t c st hs b w = (w', out)"
  shows "\<exists>k. called w' = called w @ replicate k (hook_name On_Response)"
proof -
  let ?c = "c\<lparr>res_status := st, res_headers := hs, res_body := from_utf8_lossy b\<rparr>"
  have "snd (px_vm w') = snd (fst (fst (run_on_response (he_uni env) (tracing (he_vm env))
      (he_srcs env On_Response) (px_vm w, ?c))))"
    using assms by (auto simp: respond_phase_def Let_def split: prod.splits)
  with traced_run_on_response [of "(px_vm w, ?c)" "he_uni env" "he_vm env" "he_srcs env On_Response"]
  show ?thesis unfolding called_def by (metis fst_conv trace_ext_calls)
qed

lemma forward_phase_called:
  assumes "forward_phase (traced_env env) t rq ip b c n w = (w', out)"
  shows "\<exists>k. called w' = called w @ replicate k (hook_name On_Response) \<and>
    (k \<noteq> 0 \<longrightarrow> px_sent w' \<noteq> px_sent w)"
proof (cases "next_url n (Some ip) (px_pool w)")
  case (Pair tu pool)
  show ?thesis
  proof (cases tu)
    case None
    with Pair assms show ?thesis by (auto simp: forward_phase_def intro: exI [of _ 0])
  next
    case (Some u)
    let ?u = "trim_end_matches CHR ''/'' u @ rq_path rq"
    obtain w1 r where fwd: "forward_request (traced_env env) (rq_method rq) ?u (upstream_headers c ip) b
        (w\<lparr>px_pool := pool\<rparr>) = (w1, r)" by (metis prod.exhaust)
    have w1: "called w1 = called w"
      using forward_request_frame(1) [OF fwd] by (simp add: called_def)
    show ?thesis
    proof (cases r)
      case None
      with assms Pair Some fwd w1 show ?thesis by (auto simp: forward_phase_def intro: exI [of _ 0])
    next
      case r: (Some res)
      obtain st hs rb where res: "res = (st, hs, rb)" by (metis prod.exhaust)
      have resp: "respond_phase (traced_env env) t c st hs rb w1 = (w', out)"
        using assms Pair Some fwd r res by (simp add: forward_phase_def)
      from forward_request_sent [OF fwd] r have "px_sent w1 \<noteq> px_sent w" by auto
      with respond_phase_called [OF resp] respond_phase_frame(2) [OF resp] w1 show ?thesis by metis
    qed
  qed
qed

lemma route_phase_called:
  assumes "route_phase (traced_env env) t rq ip b c w = (w', out)"
  shows "\<exists>k1 k2 k3. called w' = called w @ replicate k1 (hook_name On_Route) @
      replicate k2 (hook_name On_Transform) @ replicate k3 (hook_name On_Response) \<and>
    (k3 \<noteq> 0 \<longrightarrow> px_sent w' \<noteq> px_sent w)"
proof -
  let ?route = "run_on_route (he_uni env) (tracing (he_vm env)) (he_srcs env On_Route) (px_vm w, c)"
  let ?trans = "run_on_transform (he_uni env) (tracing (he_vm env)) (he_srcs env On_Transform) (fst ?route)"
  obtain n where fw: "forward_phase (traced_env env) t rq ip b (snd (fst ?trans)) n
      (w\<lparr>px_vm := fst (fst ?trans)\<rparr>) = (w', out)"
    using assms by (auto simp: route_phase_def split: prod.splits)
  obtain k1 where "hook_calls (snd (fst (fst ?route))) = called w @ replicate k1 (hook_name On_Route)"
    using trace_ext_calls [OF traced_run_on_route [of "(px_vm w, c)" "he_uni env" "he_vm env" "he_srcs env On_Route"]]
    by (auto simp: called_def)
  moreover obtain k2 where "hook_calls (snd (fst (fst ?trans))) =
      hook_calls (snd (fst (fst ?route))) @ replicate k2 (hook_name On_Transform)"
    using trace_ext_calls [OF traced_run_on_transform] by blast
  ultimately show ?thesis using forward_phase_called [OF fw] by fastforce
qed

lemma on_request_called:
  "\<exists>k. hook_calls (snd (fst (after_on_request (traced_env env) peer rq b (g, [])))) =
     replicate k (hook_name On_Request)"
proof -
  have nil: "hook_calls [] = []" by (simp add: hook_calls_def List.map_filter_simps)
  show ?thesis
    using trace_ext_calls [OF traced_run_on_request [of "((g, []), first_ctx env peer rq b)" "he_uni env" "he_vm env"
          "he_srcs env On_Request"]]
    by (simp add: after_on_request_def first_ctx_def nil)
qed

lemma traced_rejection:
  "snd (after_on_request (traced_env env) peer rq b (g, t)) = snd (after_on_request env peer rq b g)"
  using run_untrace(1) [of "he_uni env" "he_vm env" "he_srcs env On_Request" "(g, t)" "first_ctx env peer rq b"]
  by (simp add: after_on_request_def first_ctx_def)

lemma sorted_stages:
  "sorted (replicate a On_Request @ replicate b On_Route @ replicate c On_Transform @ replicate d On_Response)"
  by (auto simp: sorted_append less_eq_stage_def dest!: in_set_replicate [THEN iffD1])

subsection \<open>Property\<close>

text \<open>
  C3. The order of the hooks of one request, on the recording machine, which answers and acts as
  the machine it records does: every \<open>on_request\<close> call comes before every \<open>on_route\<close> call, those before
  the \<open>on_transform\<close> and those before the \<open>on_response\<close> calls; if the request stands rejected
  after the \<open>on_request\<close> hooks, only those hooks have been called, and \<open>on_response\<close> hooks run only if the request was sent upstream.
\<close>

theorem hook_order:
  assumes "metrics_ready (px_metrics w)"
    and "handle_request (traced_env env) peer rq (with_trace w) = (wt, out)"
  shows "handle_request env peer rq w = (untrace wt, out) \<and>
    (\<exists>ss. called wt = map hook_name ss \<and> sorted ss \<and>
       (On_Response \<in> set ss \<longrightarrow> px_sent wt \<noteq> px_sent w) \<and>
       (case rq_body rq of None \<Rightarrow> ss = []
        | Some body \<Rightarrow> is_rejected (snd (after_on_request env peer rq body (px_vm w))) \<longrightarrow> set ss \<subseteq> {On_Request}))"
proof
  show "handle_request env peer rq w = (untrace wt, out)"
    using handle_request_untrace [of env peer rq "with_trace w"] assms(2) by simp
  have ready: "metrics_ready (px_metrics (with_trace w))" using assms(1) by (simp add: with_trace_def)
  have vm: "px_vm (with_trace w) = (px_vm w, [])" and sent: "px_sent (with_trace w) = px_sent w"
    by (simp_all add: with_trace_def)
  note run = assms(2) [unfolded handle_request_ready [OF ready] vm]
  show "\<exists>ss. called wt = map hook_name ss \<and> sorted ss \<and>
       (On_Response \<in> set ss \<longrightarrow> px_sent wt \<noteq> px_sent w) \<and>
       (case rq_body rq of None \<Rightarrow> ss = []
        | Some body \<Rightarrow> is_rejected (snd (after_on_request env peer rq body (px_vm w))) \<longrightarrow> set ss \<subseteq> {On_Request})"
  proof (cases "rq_body rq")
    case None
    with run show ?thesis by (auto simp: begun_def intro!: exI [of _ "[]"])
  next
    case (Some body)
    obtain g tr c where after: "after_on_request (traced_env env) peer rq body (px_vm w, []) = ((g, tr), c)"
      by (metis prod.exhaust)
    with on_request_called [of env peer rq body "px_vm w"] obtain k where
      k: "hook_calls tr = replicate k (hook_name On_Request)" by auto
    have rej: "snd (after_on_request env peer rq body (px_vm w)) = c"
      using traced_rejection [of env peer rq body "px_vm w" "[]"] after by simp
    let ?w = "(begun rq (with_trace w))\<lparr>px_vm := (g, tr)\<rparr>"
    show ?thesis
    proof (cases "rejected c")
      case None
      with run Some after have "route_phase (traced_env env) (req_duration 0) rq
          (request_ip (collect_headers env (rq_headers rq)) peer) body c ?w = (wt, out)" by simp
      from route_phase_called [OF this] k sent obtain k1 k2 k3 where
        calls: "called wt = map hook_name (replicate k On_Request @ replicate k1 On_Route @
          replicate k2 On_Transform @ replicate k3 On_Response)"
        and "k3 \<noteq> 0 \<longrightarrow> px_sent wt \<noteq> px_sent w" by auto
      with Some None rej show ?thesis
        by (intro exI [of _ "replicate k On_Request @ replicate k1 On_Route @
          replicate k2 On_Transform @ replicate k3 On_Response"])
          (auto simp: sorted_stages is_rejected_def)
    next
      case (Some r)
      obtain status msg where "r = (status, msg)" by (cases r)
      with Some run \<open>rq_body rq = Some body\<close> after ready have "called wt = hook_calls tr"
        by (auto simp: reject_phase_ready)
      with k Some \<open>rq_body rq = Some body\<close> show ?thesis
        by (intro exI [of _ "replicate k On_Request"]) (auto simp: sorted_stages [of k 0 0 0, simplified])
    qed
  qed
qed

theorem hook_order_witness:
  "set (called (fst (handle_request (traced_env
     (sample_env (\<lambda>_. Some [(''on_request'', \<lambda>c. ([Reject 403 ''no''], Ret_Nil)), (''on_response'', \<lambda>c. ([], Ret_Nil))])
        \<lparr>ps_pipeline = [''ip_filter''], ps_sources = [(''ip_filter'', ''I'')]\<rparr> (\<lambda>_. No_Answer)))
     ''10.1.1.1'' sample_request (with_trace sample_state)))) \<subseteq> {''on_request''}"
proof -
  let ?env = "sample_env (\<lambda>_. Some [(''on_request'', \<lambda>c. ([Reject 403 ''no''], Ret_Nil)), (''on_response'', \<lambda>c. ([], Ret_Nil))])
        \<lparr>ps_pipeline = [''ip_filter''], ps_sources = [(''ip_filter'', ''I'')]\<rparr> (\<lambda>_. No_Answer)"
  have "is_rejected (snd (after_on_request ?env ''10.1.1.1'' sample_request [] (px_vm sample_state)))"
    by (simp add: after_on_request_def run_on_request_def request_plugin_def plugin_hook_def load_plugin_def
        call_hook_def script_vm_def hm_get_def apply_calls_def ctx_reject_def is_rejected_def)
  with hook_order [OF sample_ready surjective_pairing, of ?env "''10.1.1.1''" sample_request]
  obtain ss where "called (fst (handle_request (traced_env ?env) ''10.1.1.1'' sample_request (with_trace sample_state))) =
      map hook_name ss" and "set ss \<subseteq> {On_Request}" by (auto simp: sample_body)
  then show ?thesis by auto
qed

end
