(* ===== verification/ErrorBody.thy ===== *)
theory ErrorBody
  imports Handler
begin

section \<open>The JSON bodies built by hand (src/handler.rs, src/admin.rs)\<close>

text \<open>
  \<open>error_response\<close> and the admin API paste strings between quotes without escaping them. When that
  gives a JSON text that says what it should, and what a message with quotes can do.
\<close>

lemma plain_body: "list_all plain_char s \<Longrightarrow> json_body s s"
  by (induction s) (auto intro: json_body.intros)

lemma json_body_plain_length:
  "json_body b r \<Longrightarrow> length r \<le> length b \<and> (length r = length b \<longrightarrow> list_all plain_char b)"
  by (induction rule: json_body.induct) auto

lemma json_body_self_iff: "json_body s s \<longleftrightarrow> list_all plain_char s"
  using plain_body json_body_plain_length [of s s] by blast

text \<open>A member of an object, ready to be joined.\<close>

definition member_text :: "string \<times> json \<Rightarrow> string \<Rightarrow> bool" where
  "member_text m t \<longleftrightarrow> (\<exists>b u. json_body b (fst m) \<and> json_text (snd m) u \<and> t = quoted b @ '':'' @ u)"

lemma json_object: "list_all2 member_text ms ts \<Longrightarrow> json_text (JObject ms) (''{'' @ join '','' ts @ ''}'')"
  using json_text.Object [of ms ts] by (simp add: member_text_def [abs_def])

lemma member_string: "list_all plain_char k \<Longrightarrow> list_all plain_char s \<Longrightarrow>
    member_text (k, JString s) (quoted k @ CHR '':'' # quoted s)"
  unfolding member_text_def using plain_body json_text.String by fastforce

lemma member_value: "list_all plain_char k \<Longrightarrow> json_text j u \<Longrightarrow> member_text (k, j) (quoted k @ CHR '':'' # u)"
  unfolding member_text_def using plain_body by fastforce

lemma member_status: "member_text (''status'', JInt (uint status)) (quoted ''status'' @ CHR '':'' # show_nat (unat status))"
  using json_text.Nat [of "unat status"] by (intro member_value) (simp_all add: plain_char_def)

lemma error_body_join:
  "error_body status msg =
     ''{'' @ join '','' [quoted ''error'' @ '':'' @ quoted msg, quoted ''status'' @ '':'' @ show_nat (unat status)] @ ''}''"
  by (simp add: error_body_def quoted_def)

subsection \<open>Properties\<close>

text \<open>
  The body of an error response is a JSON object with the message and the status when the
  message consists of plain characters; a message that is not plain is not read back as itself
  by any JSON reader.
\<close>

theorem error_body_json:
  "(if list_all plain_char msg
    then json_text (JObject [(''error'', JString msg), (''status'', JInt (uint status))]) (error_body status msg)
    else \<not> json_text (JString msg) (quoted msg))"
proof (cases "list_all plain_char msg")
  case True
  have "list_all2 member_text [(''error'', JString msg), (''status'', JInt (uint status))]
      [quoted ''error'' @ '':'' @ quoted msg, quoted ''status'' @ '':'' @ show_nat (unat status)]"
    using True by (auto intro: member_string member_status simp: plain_char_def)
  from json_object [OF this] True show ?thesis by (simp only: error_body_join if_True)
next
  case False
  have "json_text (JString r) (quoted b) \<Longrightarrow> json_body b r" for b r
    by (auto simp: quoted_def elim: json_text.cases)
  with False have "\<not> json_text (JString msg) (quoted msg)" using json_body_self_iff by blast
  with False show ?thesis by simp
qed

text \<open>
  C38. A message with quotes can add members to the error object: the characters between its
  quotes are taken over as they are, so a rejection message that contains data of the client
  lets the client choose members of the response.
\<close>

theorem error_body_injection:
  assumes "list_all plain_char m1" and "list_all plain_char k" and "list_all plain_char e" and "list_all plain_char m2"
    and "json_text j u"
  shows "json_text (JObject [(''error'', JString m1), (k, j), (e, JString m2), (''status'', JInt (uint status))])
    (error_body status (m1 @ CHR 0x22 # '','' @ quoted k @ '':'' @ u @ '','' @ quoted e @ '':'' @ CHR 0x22 # m2))"
proof -
  have "list_all2 member_text [(''error'', JString m1), (k, j), (e, JString m2), (''status'', JInt (uint status))]
      [quoted ''error'' @ '':'' @ quoted m1, quoted k @ '':'' @ u, quoted e @ '':'' @ quoted m2,
       quoted ''status'' @ '':'' @ show_nat (unat status)]"
    using assms by (auto intro: member_string member_value member_status simp: plain_char_def)
  from json_object [OF this] show ?thesis by (simp add: error_body_join quoted_def)
qed

theorem error_body_injection_witness:
  "json_text (JObject [(''error'', JString ''no''), (''admin'', JBool True), (''x'', JString ''''), (''status'', JInt 403)])
     (error_body 403 (''no'' @ CHR 0x22 # '','' @ quoted ''admin'' @ '':true,'' @ quoted ''x'' @ '':'' @ [CHR 0x22]))"
  using error_body_injection [of "''no''" "''admin''" "''x''" "''''" "JBool True" "''true''" 403]
    json_text.Bool [of True]
  by (simp add: plain_char_def show_bool_def)

end
