(* ===== verification/Tls.thy ===== *)
theory Tls
  imports Config
begin

section \<open>Hot-reloadable TLS (src/tls.rs)\<close>

text \<open>
  \<open>HotTlsAcceptor\<close>: the acceptor in use and the configuration it is rebuilt from. Reading
  files, parsing PEM and building the rustls configuration are the parameter \<open>lib\<close>, which
  also stands for the state of the file system at the moment of the call. The locale
  \<open>reloadable\<close> gives what a sequence of reloads leaves in the cell.
\<close>

type_synonym der = "byte list"

record 'a tls_lib =
  tl_open :: "string \<Rightarrow> byte list option"
  tl_certs :: "byte list \<Rightarrow> (string + der) list"
  tl_keys :: "byte list \<Rightarrow> (string + der) list"
  tl_single_cert :: "der list \<Rightarrow> der \<Rightarrow> string + 'a"

text \<open>\<open>Iterator::collect\<close> into a \<open>Result\<close>: the first error, or all values.\<close>

fun collect_results :: "('e + 'a) list \<Rightarrow> 'e + 'a list" where
  "collect_results [] = Inr []"
| "collect_results (Inl e # xs) = Inl e"
| "collect_results (Inr x # xs) = (case collect_results xs of Inl e \<Rightarrow> Inl e | Inr ys \<Rightarrow> Inr (x # ys))"

text \<open>The error an \<open>anyhow\<close> context makes visible: its own message.\<close>

datatype tls_error =
    Cert_Open string
  | Key_Open string
  | Cert_Parse
  | Key_Parse
  | No_Key
  | Tls_Build

fun tls_error_msg :: "tls_error \<Rightarrow> string" where
  "tls_error_msg (Cert_Open path) = ''Cannot open cert file: '' @ path"
| "tls_error_msg (Key_Open path) = ''Cannot open key file: '' @ path"
| "tls_error_msg Cert_Parse = ''Failed to parse TLS certificate''"
| "tls_error_msg Key_Parse = ''Failed to parse private key''"
| "tls_error_msg No_Key = ''No private key found in key file''"
| "tls_error_msg Tls_Build = ''Failed to build TLS config''"

definition build_acceptor :: "'a tls_lib \<Rightarrow> tls_config \<Rightarrow> tls_error + 'a" where
  "build_acceptor lib cfg =
     (case tl_open lib (tc_cert cfg) of
        None \<Rightarrow> Inl (Cert_Open (tc_cert cfg))
      | Some cert_file \<Rightarrow>
     (case tl_open lib (tc_key cfg) of
        None \<Rightarrow> Inl (Key_Open (tc_key cfg))
      | Some key_file \<Rightarrow>
     (case collect_results (tl_certs lib cert_file) of
        Inl _ \<Rightarrow> Inl Cert_Parse
      | Inr certs \<Rightarrow>
     (case collect_results (tl_keys lib key_file) of
        Inl _ \<Rightarrow> Inl Key_Parse
      | Inr [] \<Rightarrow> Inl No_Key
      | Inr (key # _) \<Rightarrow>
     (case tl_single_cert lib certs key of
        Inl _ \<Rightarrow> Inl Tls_Build
      | Inr acceptor \<Rightarrow> Inr acceptor)))))"

record 'a hot_tls_acceptor =
  hta_inner :: 'a
  hta_cfg :: tls_config

definition HotTlsAcceptor_new :: "'a tls_lib \<Rightarrow> tls_config \<Rightarrow> tls_error + 'a hot_tls_acceptor" where
  "HotTlsAcceptor_new lib cfg =
     (case build_acceptor lib cfg of
        Inl e \<Rightarrow> Inl e
      | Inr acceptor \<Rightarrow> Inr \<lparr>hta_inner = acceptor, hta_cfg = cfg\<rparr>)"

definition HotTlsAcceptor_get :: "'a hot_tls_acceptor \<Rightarrow> 'a" where
  "HotTlsAcceptor_get h = hta_inner h"

definition HotTlsAcceptor_reload ::
    "'a tls_lib \<Rightarrow> 'a hot_tls_acceptor \<Rightarrow> (tls_error + unit) \<times> 'a hot_tls_acceptor" where
  "HotTlsAcceptor_reload lib h =
     (case build_acceptor lib (hta_cfg h) of
        Inl e \<Rightarrow> (Inl e, h)
      | Inr acceptor \<Rightarrow> (Inr (), h\<lparr>hta_inner := acceptor\<rparr>))"

text \<open>
  The development certificate: \<open>run_openssl\<close> runs the command with these arguments (\<open>None\<close>: it
  cannot be started; otherwise whether it succeeded).
\<close>

definition generate_self_signed_cert ::
    "(string list \<Rightarrow> bool option) \<Rightarrow> string \<Rightarrow> string \<Rightarrow> string + unit" where
  "generate_self_signed_cert run_openssl cert_path key_path =
     (case run_openssl [''req'', ''-x509'', ''-newkey'', ''rsa:4096'', ''-keyout'', key_path,
                        ''-out'', cert_path, ''-days'', ''365'', ''-nodes'', ''-subj'', ''/CN=localhost''] of
        Some True \<Rightarrow> Inr ()
      | _ \<Rightarrow> Inl (''openssl not available '' @ of_bytes [0xE2, 0x80, 0x94] @ '' run in HTTP-only mode''))"

subsection \<open>What can go wrong, in which order\<close>

lemma collect_results_map [simp]: "collect_results (map Inr ys) = Inr ys"
  by (induction ys) simp_all

lemma collect_results_InrD: "collect_results xs = Inr ys \<Longrightarrow> xs = map Inr ys"
  by (induction xs arbitrary: ys rule: collect_results.induct) (auto split: sum.splits)

lemma collect_results_Inr: "collect_results xs = Inr ys \<longleftrightarrow> xs = map Inr ys"
  using collect_results_InrD by auto

lemma collect_results_Inl: "collect_results xs = Inl e \<longleftrightarrow> (\<exists>ys zs. xs = map Inr ys @ Inl e # zs)"
proof (induction xs)
  case (Cons x xs)
  show ?case
  proof (cases x)
    case (Inl e')
    then show ?thesis by (auto simp: Cons_eq_append_conv)
  next
    case (Inr v)
    have "collect_results (x # xs) = Inl e \<longleftrightarrow> collect_results xs = Inl e"
      by (auto simp: Inr split: sum.split)
    also have "\<dots> \<longleftrightarrow> (\<exists>ys zs. x # xs = map Inr ys @ Inl e # zs)"
      unfolding Cons.IH by (auto simp: Inr Cons_eq_append_conv) (metis append_Cons list.simps(9))
    finally show ?thesis .
  qed
qed simp

lemma collect_results_fails: "(\<exists>e. collect_results xs = Inl e) \<longleftrightarrow> (\<exists>e. Inl e \<in> set xs)"
  by (induction xs rule: collect_results.induct) (auto split: sum.splits)

lemma collect_results_cases:
  obtains (fails) e e' where "collect_results xs = Inl e" "Inl e' \<in> set xs" "\<And>ys. xs \<noteq> map Inr ys"
  | (parsed) ys where "collect_results xs = Inr ys" "xs = map Inr ys" "\<And>e. Inl e \<notin> set xs"
proof (cases "collect_results xs")
  case (Inl e)
  then obtain e' where e': "Inl e' \<in> set xs" using collect_results_fails [of xs] by blast
  moreover have "xs \<noteq> map Inr ys" for ys using Inl by auto
  ultimately show ?thesis by (rule fails [OF Inl])
next
  case (Inr ys)
  then show ?thesis using parsed by (auto simp: collect_results_Inr)
qed

text \<open>An acceptor is built from the whole certificate chain and the first private key.\<close>

lemma build_acceptor_Inr:
  "build_acceptor lib cfg = Inr a \<longleftrightarrow>
     (\<exists>cert_file key_file certs key keys.
        tl_open lib (tc_cert cfg) = Some cert_file \<and> tl_open lib (tc_key cfg) = Some key_file \<and>
        tl_certs lib cert_file = map Inr certs \<and> tl_keys lib key_file = map Inr (key # keys) \<and>
        tl_single_cert lib certs key = Inr a)"
proof
  assume "build_acceptor lib cfg = Inr a"
  then show "\<exists>cert_file key_file certs key keys.
      tl_open lib (tc_cert cfg) = Some cert_file \<and> tl_open lib (tc_key cfg) = Some key_file \<and>
      tl_certs lib cert_file = map Inr certs \<and> tl_keys lib key_file = map Inr (key # keys) \<and>
      tl_single_cert lib certs key = Inr a"
    by (auto simp: build_acceptor_def collect_results_Inr split: option.splits sum.splits list.splits)
next
  assume "\<exists>cert_file key_file certs key keys.
      tl_open lib (tc_cert cfg) = Some cert_file \<and> tl_open lib (tc_key cfg) = Some key_file \<and>
      tl_certs lib cert_file = map Inr certs \<and> tl_keys lib key_file = map Inr (key # keys) \<and>
      tl_single_cert lib certs key = Inr a"
  then show "build_acceptor lib cfg = Inr a"
    by (auto simp: build_acceptor_def simp del: list.map(2))
qed

definition acceptor_of :: "'a tls_lib \<Rightarrow> tls_config \<Rightarrow> 'a option" where
  "acceptor_of lib cfg = (case build_acceptor lib cfg of Inl _ \<Rightarrow> None | Inr a \<Rightarrow> Some a)"

interpretation tls: reloadable hta_inner hta_cfg acceptor_of "\<lambda>lib h. snd (HotTlsAcceptor_reload lib h)"
  by unfold_locales (auto simp: acceptor_of_def HotTlsAcceptor_reload_def split: sum.splits)

lemma HotTlsAcceptor_new_Inr:
  "HotTlsAcceptor_new lib cfg = Inr h \<longleftrightarrow> hta_cfg h = cfg \<and> build_acceptor lib cfg = Inr (hta_inner h)"
  by (cases h) (auto simp: HotTlsAcceptor_new_def split: sum.splits)

subsection \<open>Properties\<close>

text \<open>
  C14. Rotating certificates is safe: after any number of reloads, each with the files as they are
  then, the acceptor in use is the one the last successful build gave (the one from start-up if
  none succeeded), and the configuration has not changed; a reload that fails reports the error
  and leaves the acceptor as it was.
\<close>

theorem tls_rotation:
  assumes "HotTlsAcceptor_new lib cfg = Inr h"
    and "h' = fold (\<lambda>lib h. snd (HotTlsAcceptor_reload lib h)) libs h"
  shows "HotTlsAcceptor_get h' = last (List.map_filter (\<lambda>l. acceptor_of l cfg) (lib # libs)) \<and>
    hta_cfg h' = cfg \<and>
    (case HotTlsAcceptor_reload lib2 h' of
       (Inl e, h'') \<Rightarrow> build_acceptor lib2 cfg = Inl e \<and> h'' = h'
     | (Inr _, h'') \<Rightarrow> build_acceptor lib2 cfg = Inr (HotTlsAcceptor_get h''))"
proof -
  have cfg: "hta_cfg h = cfg" and new: "acceptor_of lib cfg = Some (hta_inner h)"
    using assms(1) by (auto simp: HotTlsAcceptor_new_Inr acceptor_of_def)
  have cfg': "hta_cfg h' = cfg" unfolding assms(2) tls.settings_reload_all cfg ..
  moreover have "HotTlsAcceptor_get h' = last (List.map_filter (\<lambda>l. acceptor_of l cfg) (lib # libs))"
    unfolding HotTlsAcceptor_get_def assms(2) tls.current_reload_all cfg
    by (simp add: List.map_filter_simps new)
  ultimately show ?thesis
    by (auto simp: HotTlsAcceptor_reload_def HotTlsAcceptor_get_def split: sum.split)
qed

theorem tls_rotation_witness:
  "\<exists>(h :: der list hot_tls_acceptor) (h' :: der list hot_tls_acceptor).
     HotTlsAcceptor_get h = [[1]] \<and> HotTlsAcceptor_get h' = [[2]]"
proof -
  define lib :: "byte \<Rightarrow> bool \<Rightarrow> der list tls_lib" where "lib b ok =
    \<lparr>tl_open = (\<lambda>_. if ok then Some [b] else None), tl_certs = (\<lambda>f. [Inr f]), tl_keys = (\<lambda>f. [Inr f]),
     tl_single_cert = (\<lambda>certs _. Inr certs)\<rparr>" for b ok
  let ?cfg = "\<lparr>tc_cert = ''cert.pem'', tc_key = ''key.pem''\<rparr>"
  have acc: "acceptor_of (lib b ok) ?cfg = (if ok then Some [[b]] else None)" for b ok
    by (simp add: acceptor_of_def build_acceptor_def lib_def)
  obtain h where h: "HotTlsAcceptor_new (lib 1 True) ?cfg = Inr h"
    using acc [of 1 True] by (auto simp: HotTlsAcceptor_new_def acceptor_of_def split: sum.splits)
  from tls_rotation [OF h refl, of "[]"] have "HotTlsAcceptor_get h = [[1]]"
    by (simp add: List.map_filter_simps acc)
  moreover from tls_rotation [OF h refl, of "[lib 3 False, lib 2 True, lib 4 False]"]
  have "HotTlsAcceptor_get (fold (\<lambda>lib h. snd (HotTlsAcceptor_reload lib h))
      [lib 3 False, lib 2 True, lib 4 False] h) = [[2]]"
    by (simp add: List.map_filter_simps acc)
  ultimately show ?thesis by blast
qed

text \<open>
  C31. The outcome of building an acceptor, exactly: the certificate file is opened first, then
  the key file; then every certificate of the one must parse, every key of the other must parse,
  there must be a key, and rustls must accept the chain of all certificates of the file with
  the first key. Each error is reported exactly when its step is the first to fail, and an
  acceptor is the result exactly when none fails.
\<close>

theorem build_acceptor_outcome:
  "(\<forall>p. build_acceptor lib cfg = Inl (Cert_Open p) \<longleftrightarrow>
      p = tc_cert cfg \<and> tl_open lib (tc_cert cfg) = None) \<and>
   (\<forall>p. build_acceptor lib cfg = Inl (Key_Open p) \<longleftrightarrow>
      p = tc_key cfg \<and> tl_open lib (tc_cert cfg) \<noteq> None \<and> tl_open lib (tc_key cfg) = None) \<and>
   (build_acceptor lib cfg = Inl Cert_Parse \<longleftrightarrow>
      (\<exists>cf kf e. tl_open lib (tc_cert cfg) = Some cf \<and> tl_open lib (tc_key cfg) = Some kf \<and>
         Inl e \<in> set (tl_certs lib cf))) \<and>
   (build_acceptor lib cfg = Inl Key_Parse \<longleftrightarrow>
      (\<exists>cf kf certs e. tl_open lib (tc_cert cfg) = Some cf \<and> tl_open lib (tc_key cfg) = Some kf \<and>
         tl_certs lib cf = map Inr certs \<and> Inl e \<in> set (tl_keys lib kf))) \<and>
   (build_acceptor lib cfg = Inl No_Key \<longleftrightarrow>
      (\<exists>cf kf certs. tl_open lib (tc_cert cfg) = Some cf \<and> tl_open lib (tc_key cfg) = Some kf \<and>
         tl_certs lib cf = map Inr certs \<and> tl_keys lib kf = [])) \<and>
   (build_acceptor lib cfg = Inl Tls_Build \<longleftrightarrow>
      (\<exists>cf kf certs key keys e.
         tl_open lib (tc_cert cfg) = Some cf \<and> tl_open lib (tc_key cfg) = Some kf \<and>
         tl_certs lib cf = map Inr certs \<and> tl_keys lib kf = map Inr (key # keys) \<and>
         tl_single_cert lib certs key = Inl e)) \<and>
   (\<forall>a. build_acceptor lib cfg = Inr a \<longleftrightarrow>
      (\<exists>cf kf certs key keys.
         tl_open lib (tc_cert cfg) = Some cf \<and> tl_open lib (tc_key cfg) = Some kf \<and>
         tl_certs lib cf = map Inr certs \<and> tl_keys lib kf = map Inr (key # keys) \<and>
         tl_single_cert lib certs key = Inr a))"
proof (cases "tl_open lib (tc_cert cfg) = None \<or> tl_open lib (tc_key cfg) = None")
  case True
  then show ?thesis by (auto simp: build_acceptor_def split: option.split)
next
  case False
  then obtain cf kf where opened: "tl_open lib (tc_cert cfg) = Some cf" "tl_open lib (tc_key cfg) = Some kf"
    by auto
  show ?thesis
  proof (cases "tl_certs lib cf" rule: collect_results_cases)
    case fails
    then show ?thesis by (auto simp: build_acceptor_def opened)
  next
    case certs: (parsed certs)
    show ?thesis
    proof (cases "tl_keys lib kf" rule: collect_results_cases)
      case fails
      with certs show ?thesis by (auto simp: build_acceptor_def opened simp del: list.map(2))
    next
      case (parsed keys)
      with certs show ?thesis
        by (cases keys) (auto simp: build_acceptor_def opened split: sum.split)
    qed
  qed
qed

end
