(* ===== verification/Admin.thy ===== *)
theory Admin
  imports ErrorBody Tls
begin

section \<open>The admin API (src/admin.rs)\<close>

text \<open>
  \<open>AdminServer\<close> and \<open>handle_admin\<close>. The server shares two cells with the rest of the proxy, the
  plugin sources and the TLS acceptor; its record holds their current content. The outside world
  of one request is \<open>world\<close>: what reading a plugin file gives, the TLS files and library, and the
  metrics with their text encoder.
\<close>

record 'a admin_server =
  as_addr :: string
  as_plugin_srcs :: plugin_sources
  as_plugins_cfg :: plugins_config
  as_tls_acceptor :: "'a hot_tls_acceptor option"

definition AdminServer_new ::
    "string \<Rightarrow> plugin_sources \<Rightarrow> plugins_config \<Rightarrow> 'a hot_tls_acceptor option \<Rightarrow> 'a admin_server" where
  "AdminServer_new addr srcs cfg tls =
     \<lparr>as_addr = addr, as_plugin_srcs = srcs, as_plugins_cfg = cfg, as_tls_acceptor = tls\<rparr>"

record 'a admin_world =
  aw_read_file :: "string \<Rightarrow> string option"
  aw_tls :: "'a tls_lib"
  aw_metrics :: metrics
  aw_encode :: "(collector \<times> metric_op list) list \<Rightarrow> byte list"

subsection \<open>Responses\<close>

definition json_response :: "u16 \<Rightarrow> string \<Rightarrow> http_response" where
  "json_response status body =
     \<lparr>rp_status = status, rp_headers = [(''content-type'', ''application/json'')], rp_body = as_bytes body\<rparr>"

definition ok_json :: "string \<Rightarrow> http_response" where
  "ok_json body = json_response 200 body"

definition status_message :: "string \<Rightarrow> string \<Rightarrow> string" where
  "status_message st msg =
     ''{'' @ quoted ''status'' @ '':'' @ quoted st @ '','' @ quoted ''message'' @ '':'' @ quoted msg @ ''}''"

definition plugins_body :: "string list \<Rightarrow> string" where
  "plugins_body names = ''{'' @ quoted ''plugins'' @ '':['' @ join '','' (map quoted names) @ '']}''"

subsection \<open>The routes\<close>

definition admin_reload :: "'a admin_world \<Rightarrow> 'a admin_server \<Rightarrow> 'a admin_server \<times> http_response outcome" where
  "admin_reload world s =
     (case PluginSources_load (aw_read_file world) (as_plugins_cfg s) of
        Inr new_srcs \<Rightarrow>
          (s\<lparr>as_plugin_srcs := new_srcs\<rparr>, Done (ok_json (status_message ''ok'' ''plugins reloaded'')))
      | Inl e \<Rightarrow> (s, Done (ok_json (status_message ''error'' e))))"

definition admin_reload_tls :: "'a admin_world \<Rightarrow> 'a admin_server \<Rightarrow> 'a admin_server \<times> http_response outcome" where
  "admin_reload_tls world s =
     (case as_tls_acceptor s of
        None \<Rightarrow> (s, Done (ok_json (status_message ''error'' ''TLS not enabled'')))
      | Some acceptor \<Rightarrow>
          (case HotTlsAcceptor_reload (aw_tls world) acceptor of
             (Inr _, acceptor') \<Rightarrow>
               (s\<lparr>as_tls_acceptor := Some acceptor'\<rparr>, Done (ok_json (status_message ''ok'' ''TLS reloaded'')))
           | (Inl e, acceptor') \<Rightarrow>
               (s\<lparr>as_tls_acceptor := Some acceptor'\<rparr>,
                Done (ok_json (status_message ''error'' (tls_error_msg e))))))"

definition admin_metrics :: "'a admin_world \<Rightarrow> http_response outcome" where
  "admin_metrics world =
     (case gather (aw_encode world) (aw_metrics world) of
        None \<Rightarrow> Panic
      | Some body \<Rightarrow>
          Done \<lparr>rp_status = 200, rp_headers = [(''content-type'', ''text/plain; version=0.0.4'')],
                rp_body = as_bytes body\<rparr>)"

definition handle_admin ::
    "'a admin_world \<Rightarrow> string \<Rightarrow> string \<Rightarrow> 'a admin_server \<Rightarrow> 'a admin_server \<times> http_response outcome" where
  "handle_admin world method path s =
     (if method = ''POST'' \<and> path = ''/reload'' then admin_reload world s
      else if method = ''POST'' \<and> path = ''/reload/tls'' then admin_reload_tls world s
      else if method = ''GET'' \<and> path = ''/metrics'' then (s, admin_metrics world)
      else if method = ''GET'' \<and> path = ''/health'' then
        (s, Done (ok_json (''{'' @ quoted ''status'' @ '':'' @ quoted ''ok'' @ ''}'')))
      else if method = ''GET'' \<and> path = ''/plugins'' then
        (s, Done (ok_json (plugins_body (ps_pipeline (as_plugin_srcs s)))))
      else (s, Done (json_response 404 (''{'' @ quoted ''error'' @ '':'' @ quoted ''not found'' @ ''}''))))"

subsection \<open>Reloading\<close>

definition loaded :: "(string \<Rightarrow> string option) \<Rightarrow> plugins_config \<Rightarrow> plugin_sources option" where
  "loaded read_file cfg = (case PluginSources_load read_file cfg of Inl _ \<Rightarrow> None | Inr ps \<Rightarrow> Some ps)"

interpretation plugins: reloadable as_plugin_srcs as_plugins_cfg "\<lambda>world. loaded (aw_read_file world)"
    "\<lambda>world s. fst (admin_reload world s)"
  by unfold_locales (auto simp: loaded_def admin_reload_def split: sum.splits)

lemma admin_reload_eq:
  "\<exists>ps. PluginSources_load (aw_read_file world) (as_plugins_cfg s) = Inr ps \<and>
     admin_reload world s =
       (s\<lparr>as_plugin_srcs := ps\<rparr>, Done (ok_json (status_message ''ok'' ''plugins reloaded'')))"
  using PluginSources_load_total [of "aw_read_file world" "as_plugins_cfg s"] by (auto simp: admin_reload_def)

text \<open>A sequence of admin requests, each in the world of its moment.\<close>

definition admin_run ::
    "('a admin_world \<times> string \<times> string) list \<Rightarrow> 'a admin_server \<Rightarrow> 'a admin_server" where
  "admin_run rqs s = fold (\<lambda>(world, m, p) s. fst (handle_admin world m p s)) rqs s"

definition is_reload :: "'a admin_world \<times> string \<times> string \<Rightarrow> bool" where
  "is_reload rq = (snd rq = (''POST'', ''/reload''))"

lemma handle_admin_srcs:
  "as_plugin_srcs (fst (handle_admin world m p s)) =
     (if is_reload (world, m, p) then as_plugin_srcs (fst (admin_reload world s)) else as_plugin_srcs s)"
  "as_plugins_cfg (fst (handle_admin world m p s)) = as_plugins_cfg s"
  "as_addr (fst (handle_admin world m p s)) = as_addr s"
  by (auto simp: handle_admin_def is_reload_def admin_reload_def admin_reload_tls_def
      split: sum.split option.split prod.split)

lemma admin_run_srcs:
  "as_plugin_srcs (admin_run rqs s) =
     last (as_plugin_srcs s #
       List.map_filter (\<lambda>rq. if is_reload rq then loaded (aw_read_file (fst rq)) (as_plugins_cfg s) else None) rqs)"
  unfolding admin_run_def
proof (induction rqs arbitrary: s)
  case (Cons rq rqs)
  obtain world m p where rq: "rq = (world, m, p)" by (metis prod.exhaust)
  note ih = Cons.IH [of "fst (handle_admin world m p s)", unfolded handle_admin_srcs(2)]
  show ?case
    using plugins.current_reload [of world s]
    by (auto simp: rq ih List.map_filter_simps handle_admin_srcs(1) split: option.split)
qed (simp add: List.map_filter_simps)

lemma handle_admin_tls:
  "(m, p) \<noteq> (''POST'', ''/reload/tls'') \<Longrightarrow> as_tls_acceptor (fst (handle_admin world m p s)) = as_tls_acceptor s"
  by (auto simp: handle_admin_def admin_reload_def split: sum.split)

lemma admin_run_tls:
  "(''POST'', ''/reload/tls'') \<notin> snd ` set rqs \<Longrightarrow> as_tls_acceptor (admin_run rqs s) = as_tls_acceptor s"
  unfolding admin_run_def
proof (induction rqs arbitrary: s)
  case (Cons rq rqs)
  obtain world m p where rq: "rq = (world, m, p)" by (metis prod.exhaust)
  with Cons.prems have "(m, p) \<noteq> (''POST'', ''/reload/tls'')" and "(''POST'', ''/reload/tls'') \<notin> snd ` set rqs"
    by auto
  with Cons.IH [of "fst (handle_admin world m p s)"] handle_admin_tls [of m p world s] rq show ?case by simp
qed simp

lemma plugins_body_json:
  assumes "list_all (list_all plain_char) names"
  shows "json_text (JObject [(''plugins'', JArray (map JString names))]) (plugins_body names)"
proof -
  have "list_all2 json_text (map JString names) (map quoted names)"
    using assms by (simp add: list_all2_map1 list_all2_map2 list_all2_same list_all_iff json_text.String plain_body)
  from json_text.Array [OF this] have "list_all2 member_text [(''plugins'', JArray (map JString names))]
      [quoted ''plugins'' @ CHR '':'' # ''['' @ join '','' (map quoted names) @ '']'']"
    by (auto intro!: member_value simp: plain_char_def)
  from json_object [OF this] show ?thesis by (simp add: plugins_body_def)
qed

subsection \<open>Properties\<close>

text \<open>
  C29. What any sequence of admin requests leaves in the shared cells: the plugin sources are those
  the last \<open>POST /reload\<close> read (always successfully), whatever requests came between; no other
  request touches them, none touches the configuration, and only \<open>POST /reload/tls\<close> touches the
  acceptor.
\<close>

theorem admin_effects:
  "as_plugin_srcs (admin_run rqs s) =
     last (as_plugin_srcs s #
       List.map_filter (\<lambda>rq. if is_reload rq then loaded (aw_read_file (fst rq)) (as_plugins_cfg s) else None) rqs) \<and>
   as_plugins_cfg (admin_run rqs s) = as_plugins_cfg s \<and>
   (if (''POST'', ''/reload/tls'') \<in> snd ` set rqs then True
    else as_tls_acceptor (admin_run rqs s) = as_tls_acceptor s)"
proof -
  have "as_plugins_cfg (admin_run rqs s) = as_plugins_cfg s"
    unfolding admin_run_def by (induction rqs arbitrary: s) (auto simp: handle_admin_srcs)
  then show ?thesis using admin_run_srcs [of rqs s] admin_run_tls [of rqs s] by simp
qed

text \<open>
  C30. The answers of the admin API: \<open>POST /reload\<close> always reports success; \<open>POST /reload/tls\<close> reports
  success exactly when the acceptor has been rebuilt, and answers with status 200 in every case;
  \<open>GET /plugins\<close> lists the configured pipeline, as JSON if the names are plain, including plugins
  that could not be read.
\<close>

theorem admin_answers:
  "snd (handle_admin world ''POST'' ''/reload'' s) = Done (ok_json (status_message ''ok'' ''plugins reloaded'')) \<and>
   snd (handle_admin world ''POST'' ''/reload/tls'' s) =
     Done (ok_json (case as_tls_acceptor s of
         None \<Rightarrow> status_message ''error'' ''TLS not enabled''
       | Some acc \<Rightarrow> (case build_acceptor (aw_tls world) (hta_cfg acc) of
             Inl e \<Rightarrow> status_message ''error'' (tls_error_msg e)
           | Inr _ \<Rightarrow> status_message ''ok'' ''TLS reloaded''))) \<and>
   (case handle_admin world ''POST'' ''/reload'' s of (s', _) \<Rightarrow>
      case snd (handle_admin world ''GET'' ''/plugins'' s') of
        Done r \<Rightarrow> rp_status r = 200 \<and> (if list_all (list_all plain_char) (pc_pipeline (as_plugins_cfg s))
          then json_text (JObject [(''plugins'', JArray (map JString (pc_pipeline (as_plugins_cfg s))))])
                 (of_bytes (rp_body r)) else True)
      | _ \<Rightarrow> False)"
proof -
  obtain ps where load: "PluginSources_load (aw_read_file world) (as_plugins_cfg s) = Inr ps"
    and reload: "admin_reload world s =
       (s\<lparr>as_plugin_srcs := ps\<rparr>, Done (ok_json (status_message ''ok'' ''plugins reloaded'')))"
    using admin_reload_eq [of world s] by blast
  have pipe: "ps_pipeline ps = pc_pipeline (as_plugins_cfg s)" using PluginSources_load_sources [OF load] by simp
  have "snd (handle_admin world ''POST'' ''/reload'' s) = Done (ok_json (status_message ''ok'' ''plugins reloaded''))"
    and after: "fst (handle_admin world ''POST'' ''/reload'' s) = s\<lparr>as_plugin_srcs := ps\<rparr>"
    by (simp_all add: handle_admin_def reload)
  moreover have "snd (handle_admin world ''POST'' ''/reload/tls'' s) =
     Done (ok_json (case as_tls_acceptor s of
         None \<Rightarrow> status_message ''error'' ''TLS not enabled''
       | Some acc \<Rightarrow> (case build_acceptor (aw_tls world) (hta_cfg acc) of
             Inl e \<Rightarrow> status_message ''error'' (tls_error_msg e)
           | Inr _ \<Rightarrow> status_message ''ok'' ''TLS reloaded'')))"
    by (auto simp: handle_admin_def admin_reload_tls_def HotTlsAcceptor_reload_def split: option.split sum.split)
  moreover have "snd (handle_admin world ''GET'' ''/plugins'' (s\<lparr>as_plugin_srcs := ps\<rparr>)) =
      Done (ok_json (plugins_body (pc_pipeline (as_plugins_cfg s))))"
    by (simp add: handle_admin_def pipe)
  ultimately show ?thesis
    using plugins_body_json [of "pc_pipeline (as_plugins_cfg s)"]
    by (simp add: after split_beta ok_json_def json_response_def)
qed

end
