(* ===== verification/Watcher.thy ===== *)
theory Watcher
  imports Engine
begin

section \<open>The file watcher (src/watcher.rs)\<close>

text \<open>
  \<open>spawn_watcher\<close>: the callback of the \<open>notify\<close> crate puts events into a channel of 32 places
  (and blocks while it is full); the task receives them one by one, remembers whether one of
  them concerns a \<open>.lua\<close> file, and every 300 ms reloads the plugin sources if so. The order in
  which the branches of \<open>select!\<close> are taken is the sequence of steps.
\<close>

datatype event_kind = Ev_Create | Ev_Modify | Ev_Remove | Ev_Access | Ev_Any | Ev_Other

record fs_event =
  fe_kind :: event_kind
  fe_paths :: "string list"

subsection \<open>\<open>Path::extension\<close>\<close>

text \<open>The components of a path; empty ones and single dots do not count.\<close>

fun split_on :: "char \<Rightarrow> string \<Rightarrow> string list" where
  "split_on c [] = [[]]"
| "split_on c (x # xs) =
     (if x = c then [] # split_on c xs
      else (case split_on c xs of [] \<Rightarrow> [[x]] | w # ws \<Rightarrow> (x # w) # ws))"

definition path_file_name :: "string \<Rightarrow> string option" where
  "path_file_name p =
     (let comps = filter (\<lambda>w. w \<noteq> [] \<and> w \<noteq> ''.'') (split_on CHR ''/'' p) in
      if comps = [] \<or> last comps = ''..'' then None else Some (last comps))"

text \<open>What follows the last dot of the file name, unless that dot is its first character.\<close>

definition path_extension :: "string \<Rightarrow> string option" where
  "path_extension p =
     (case path_file_name p of
        None \<Rightarrow> None
      | Some f \<Rightarrow>
          (let parts = split_on CHR ''.'' f in
           if length parts \<le> 1 \<or> (length parts = 2 \<and> hd parts = []) then None else Some (last parts)))"

definition is_relevant :: "fs_event \<Rightarrow> bool" where
  "is_relevant ev =
     (fe_kind ev \<in> {Ev_Create, Ev_Modify, Ev_Remove} \<and>
      list_ex (\<lambda>p. path_extension p = Some ''lua'') (fe_paths ev))"

subsection \<open>The task\<close>

definition channel_capacity :: nat where
  "channel_capacity = 32"

record watcher =
  wt_cfg :: plugins_config
  wt_queue :: "fs_event list"
  wt_pending :: bool
  wt_srcs :: plugin_sources

text \<open>
  Starting it: \<open>backend_ok\<close> says whether the notification backend can be created, \<open>watch_ok\<close>
  whether a directory can be watched; both errors reach \<open>main\<close>.
\<close>

definition spawn_watcher ::
    "bool \<Rightarrow> (string \<Rightarrow> bool) \<Rightarrow> plugins_config \<Rightarrow> plugin_sources \<Rightarrow> string + watcher" where
  "spawn_watcher backend_ok watch_ok cfg srcs =
     (if \<not> backend_ok then Inl ''watcher''
      else if \<not> watch_ok (pc_dir cfg) then Inl ''watch''
      else Inr \<lparr>wt_cfg = cfg, wt_queue = [], wt_pending = False, wt_srcs = srcs\<rparr>)"

text \<open>
  The steps: the callback sends an event, the task receives one, or the debounce timer ticks
  while \<open>read_file\<close> is the file system.
\<close>

datatype watch_label = Notified fs_event | Receive | Debounce "string \<Rightarrow> string option"

definition debounce_tick :: "(string \<Rightarrow> string option) \<Rightarrow> watcher \<Rightarrow> watcher" where
  "debounce_tick read_file s =
     (if wt_pending s then
        (let s' = s\<lparr>wt_pending := False\<rparr> in
         case PluginSources_load read_file (wt_cfg s) of
           Inr new \<Rightarrow> s'\<lparr>wt_srcs := new\<rparr>
         | Inl e \<Rightarrow> s')
      else s)"

definition receive_event :: "fs_event \<Rightarrow> watcher \<Rightarrow> watcher" where
  "receive_event ev s = (if is_relevant ev then s\<lparr>wt_pending := True\<rparr> else s)"

inductive watch_step :: "watcher \<Rightarrow> watch_label \<Rightarrow> watcher \<Rightarrow> bool" where
  watch_notified: "length (wt_queue s) < channel_capacity \<Longrightarrow>
    watch_step s (Notified ev) (s\<lparr>wt_queue := wt_queue s @ [ev]\<rparr>)"
| watch_receive: "wt_queue s = ev # evs \<Longrightarrow>
    watch_step s Receive (receive_event ev (s\<lparr>wt_queue := evs\<rparr>))"
| watch_tick: "watch_step s (Debounce read_file) (debounce_tick read_file s)"

inductive watch_steps :: "watcher \<Rightarrow> watch_label list \<Rightarrow> watcher \<Rightarrow> bool" where
  watch_none: "watch_steps s [] s"
| watch_cons: "watch_step s l s' \<Longrightarrow> watch_steps s' ls s'' \<Longrightarrow> watch_steps s (l # ls) s''"

inductive_cases notified_cases: "watch_step s (Notified ev) s'"
inductive_cases receive_cases: "watch_step s Receive s'"
inductive_cases debounce_cases: "watch_step s (Debounce rf) s'"
inductive_cases watch_Nil_cases: "watch_steps s [] s'"
inductive_cases watch_Cons_cases: "watch_steps s (l # ls) s''"
inductive_simps debounce_simps: "watch_step s (Debounce rf) s'"
inductive_simps watch_Nil_simps: "watch_steps s [] s'"
inductive_simps watch_Cons_simps: "watch_steps s (l # ls) s''"

lemma watch_steps_append:
  "watch_steps s (as @ bs) s'' \<longleftrightarrow> (\<exists>s'. watch_steps s as s' \<and> watch_steps s' bs s'')"
  by (induction as arbitrary: s) (auto simp: watch_Nil_simps watch_Cons_simps)

subsection \<open>Invariants\<close>

lemma debounce_tick_fields [simp, frame_simps]:
  "wt_cfg (debounce_tick rf s) = wt_cfg s" "wt_queue (debounce_tick rf s) = wt_queue s"
  "\<not> wt_pending (debounce_tick rf s)"
  by (auto simp: debounce_tick_def Let_def split: sum.split)

lemma receive_event_fields [simp, frame_simps]:
  "wt_cfg (receive_event ev s) = wt_cfg s" "wt_queue (receive_event ev s) = wt_queue s"
  "wt_srcs (receive_event ev s) = wt_srcs s"
  "wt_pending (receive_event ev s) \<longleftrightarrow> wt_pending s \<or> is_relevant ev"
  by (auto simp: receive_event_def)

lemma debounce_srcs:
  assumes "PluginSources_load rf (wt_cfg s) = Inr ps"
  shows "wt_srcs (debounce_tick rf s) = (if wt_pending s then ps else wt_srcs s)"
  using assms by (simp add: debounce_tick_def Let_def)

lemma watch_step_bounded:
  "watch_step s l s' \<Longrightarrow> length (wt_queue s) \<le> channel_capacity \<Longrightarrow>
     length (wt_queue s') \<le> channel_capacity \<and> wt_cfg s' = wt_cfg s"
  by (induction rule: watch_step.induct) auto

lemma watch_steps_bounded:
  "watch_steps s ls s' \<Longrightarrow> length (wt_queue s) \<le> channel_capacity \<Longrightarrow>
     length (wt_queue s') \<le> channel_capacity \<and> wt_cfg s' = wt_cfg s"
  by (induction rule: watch_steps.induct) (auto dest: watch_step_bounded)

text \<open>Work to do: the flag is set or a relevant event is waiting in the channel.\<close>

definition outstanding :: "watcher \<Rightarrow> bool" where
  "outstanding s = (wt_pending s \<or> list_ex is_relevant (wt_queue s))"

text \<open>A step that is no tick keeps the work and the sources.\<close>

lemma watch_step_keeps:
  assumes "watch_step s l s'" and "\<And>rf. l \<noteq> Debounce rf"
  shows "wt_srcs s' = wt_srcs s" and "wt_pending s \<Longrightarrow> wt_pending s'"
    and "outstanding s \<Longrightarrow> outstanding s'"
  using assms by (induction rule: watch_step.induct) (auto simp: outstanding_def)

text \<open>Without work, and without relevant events, nothing ever changes the sources.\<close>

fun quiet :: "watch_label \<Rightarrow> bool" where
  "quiet (Notified ev) = (\<not> is_relevant ev)"
| "quiet _ = True"

lemma watch_step_quiet:
  "watch_step s l s' \<Longrightarrow> quiet l \<Longrightarrow> \<not> outstanding s \<Longrightarrow> \<not> outstanding s' \<and> wt_srcs s' = wt_srcs s"
  by (induction rule: watch_step.induct) (auto simp: outstanding_def debounce_tick_def)

lemma watch_steps_quiet:
  "watch_steps s ls s' \<Longrightarrow> list_all quiet ls \<Longrightarrow> \<not> outstanding s \<Longrightarrow>
     \<not> outstanding s' \<and> wt_srcs s' = wt_srcs s"
  by (induction rule: watch_steps.induct) (auto dest: watch_step_quiet)

subsection \<open>From a change to a reload\<close>

text \<open>Whether a list of steps contains no tick.\<close>

fun no_tick :: "watch_label \<Rightarrow> bool" where
  "no_tick (Debounce rf) = False"
| "no_tick _ = True"

lemma watch_steps_keeps:
  "watch_steps s ls s' \<Longrightarrow> list_all no_tick ls \<Longrightarrow>
     wt_srcs s' = wt_srcs s \<and> (wt_pending s \<longrightarrow> wt_pending s') \<and> (outstanding s \<longrightarrow> outstanding s')"
proof (induction rule: watch_steps.induct)
  case (watch_cons s l s' ls s'')
  then have "\<And>rf. l \<noteq> Debounce rf" by auto
  with watch_step_keeps [OF watch_cons.hyps(1)] watch_cons show ?case by auto
qed simp

text \<open>The task can always go on, and receiving what waits in the channel sets the flag.\<close>

lemma drain_queue:
  "\<exists>s'. watch_steps s (replicate (length (wt_queue s)) Receive) s' \<and> wt_queue s' = [] \<and>
     (wt_pending s' \<longleftrightarrow> outstanding s) \<and> wt_srcs s' = wt_srcs s \<and> wt_cfg s' = wt_cfg s"
proof (induction "wt_queue s" arbitrary: s)
  case Nil
  then show ?case by (auto simp: outstanding_def intro: watch_none)
next
  case (Cons ev evs)
  let ?s = "receive_event ev (s\<lparr>wt_queue := evs\<rparr>)"
  from Cons.hyps(1) [of ?s] obtain s' where "watch_steps ?s (replicate (length evs) Receive) s'"
    "wt_queue s' = []" "wt_pending s' \<longleftrightarrow> outstanding ?s" "wt_srcs s' = wt_srcs s" "wt_cfg s' = wt_cfg s"
    by auto
  moreover have "watch_step s Receive ?s" using Cons.hyps(2) by (intro watch_receive) simp
  moreover have "outstanding ?s = outstanding s" using Cons.hyps(2) [symmetric] by (auto simp: outstanding_def)
  ultimately show ?case using Cons.hyps(2) [symmetric] by (auto intro!: exI [of _ s'] watch_cons)
qed

subsection \<open>Properties\<close>

text \<open>
  C13. No change is lost: once an event about a created, changed or removed \<open>.lua\<close> file has been
  received, the next tick loads the plugin sources from the file system of that moment, whatever
  steps lie between; and until another relevant event arrives the sources stay as they are.
\<close>

theorem watcher_reloads:
  assumes "watch_steps s (Receive # mid @ Debounce rf # post) s'"
    and "wt_queue s = ev # evs" and "is_relevant ev" and "list_all no_tick mid"
    and "list_all quiet mid" and "list_all quiet post" and "\<not> list_ex is_relevant evs"
  shows "PluginSources_load rf (wt_cfg s) = Inr (wt_srcs s')"
proof -
  from assms(1,2) obtain s1 s2 s3 where s1: "s1 = receive_event ev (s\<lparr>wt_queue := evs\<rparr>)"
    and mid: "watch_steps s1 mid s2" and tick: "s3 = debounce_tick rf s2" and post: "watch_steps s3 post s'"
    by (auto simp: watch_Cons_simps watch_steps_append debounce_simps elim!: receive_cases)
  have queue: "watch_steps a ls b \<Longrightarrow> list_all quiet ls \<Longrightarrow> \<not> list_ex is_relevant (wt_queue a) \<Longrightarrow>
      \<not> list_ex is_relevant (wt_queue b) \<and> wt_cfg b = wt_cfg a" for a ls b
  proof (induction rule: watch_steps.induct)
    case (watch_cons s l s' ls s'')
    from watch_cons.hyps(1) watch_cons.prems have "\<not> list_ex is_relevant (wt_queue s') \<and> wt_cfg s' = wt_cfg s"
      by (cases rule: watch_step.cases) auto
    with watch_cons show ?case by simp
  qed simp
  have pending: "wt_pending s2" using watch_steps_keeps [OF mid assms(4)] assms(3) by (simp add: s1)
  have q2: "\<not> list_ex is_relevant (wt_queue s2)" and cfg: "wt_cfg s2 = wt_cfg s"
    using queue [OF mid assms(5)] assms(7) by (simp_all add: s1)
  obtain ps where ps: "PluginSources_load rf (wt_cfg s2) = Inr ps" using PluginSources_load_total by blast
  have "wt_srcs s3 = ps" using debounce_srcs [OF ps] pending by (simp add: tick)
  moreover have "\<not> outstanding s3" using q2 by (simp add: tick outstanding_def)
  with watch_steps_quiet [OF post assms(6)] have "wt_srcs s' = wt_srcs s3" by simp
  ultimately show ?thesis using ps cfg by simp
qed

theorem watcher_reloads_witness:
  "\<exists>s :: watcher. hm_get (ps_sources (wt_srcs s)) ''auth.lua'' = Some ''new''"
proof -
  let ?cfg = "\<lparr>pc_dir = ''plugins'', pc_pipeline = [''auth.lua'']\<rparr>"
  let ?ev = "\<lparr>fe_kind = Ev_Modify, fe_paths = [''plugins/auth.lua'']\<rparr>"
  let ?s = "\<lparr>wt_cfg = ?cfg, wt_queue = [?ev], wt_pending = False,
      wt_srcs = \<lparr>ps_pipeline = [''auth.lua''], ps_sources = []\<rparr>\<rparr>"
  have rel: "is_relevant ?ev"
    by (simp add: is_relevant_def path_extension_def path_file_name_def Let_def)
  obtain s' where run: "watch_steps ?s (Receive # [] @ Debounce (\<lambda>_. Some ''new'') # []) s'"
    using watch_receive [of ?s ?ev "[]"] watch_tick by (fastforce intro: watch_cons watch_none)
  from watcher_reloads [OF run _ rel] have load: "PluginSources_load (\<lambda>_. Some ''new'') ?cfg = Inr (wt_srcs s')"
    by simp
  have "hm_get (ps_sources (wt_srcs s')) ''auth.lua'' = Some ''new''"
    using PluginSources_load_sources(2) [OF load] by simp
  then show ?thesis by blast
qed

text \<open>
  C28. The task never gets stuck: in every state it can receive all that waits in the channel and
  tick, after which nothing is outstanding, and the sources are those of the file system of that
  tick if a relevant event was waiting or remembered, and unchanged if not.
\<close>

theorem watcher_progress:
  "\<exists>s'. watch_steps s (replicate (length (wt_queue s)) Receive @ [Debounce rf]) s' \<and> \<not> outstanding s' \<and>
     (if outstanding s then PluginSources_load rf (wt_cfg s) = Inr (wt_srcs s') else wt_srcs s' = wt_srcs s)"
proof -
  obtain s1 where s1: "watch_steps s (replicate (length (wt_queue s)) Receive) s1" "wt_queue s1 = []"
    "wt_pending s1 \<longleftrightarrow> outstanding s" "wt_srcs s1 = wt_srcs s" "wt_cfg s1 = wt_cfg s"
    using drain_queue [of s] by blast
  obtain ps where ps: "PluginSources_load rf (wt_cfg s1) = Inr ps" using PluginSources_load_total by blast
  let ?s' = "debounce_tick rf s1"
  have "watch_steps s (replicate (length (wt_queue s)) Receive @ [Debounce rf]) ?s'"
    using s1(1) watch_tick by (auto simp: watch_steps_append intro: watch_cons watch_none)
  moreover have "\<not> outstanding ?s'" by (simp add: outstanding_def s1(2))
  moreover have "if outstanding s then PluginSources_load rf (wt_cfg s) = Inr (wt_srcs ?s') else wt_srcs ?s' = wt_srcs s"
    using debounce_srcs [OF ps] ps s1 by simp
  ultimately show ?thesis by blast
qed

end
