(* ===== verification/Server.thy ===== *)
theory Server
  imports HookOrder Admin Watcher
begin

section \<open>Start-up and connections (src/main.rs)\<close>

text \<open>
  \<open>main\<close> up to the signal it waits for, the two accept loops and the admin loop, and the whole
  proxy as a step relation. The environment of the start is \<open>sys\<close>: the file system, the \<open>toml\<close>
  parser, the TLS library and the notification backend. Binding sockets and accepting
  connections are steps of the environment; a connection is the sequence of its requests.
\<close>

record 'a system_env =
  sy_read_file :: "string \<Rightarrow> string option"
  sy_parse :: "string \<Rightarrow> raw_config option"
  sy_exists :: "string \<Rightarrow> bool"
  sy_tls :: "'a tls_lib"
  sy_backend_ok :: bool
  sy_watch_ok :: "string \<Rightarrow> bool"

datatype startup_error = Config_Error config_error | Plugin_Error string | Watcher_Error string | Pool_Init_Error pool_error

text \<open>
  The running proxy. The plugin sources are one shared cell: \<open>sv_admin\<close> and \<open>sv_watcher\<close> each hold
  its content, and the invariant below says that they agree.
\<close>

record ('a, 'g) server =
  sv_cfg :: config
  sv_metrics :: metrics
  sv_admin :: "'a admin_server"
  sv_watcher :: watcher
  sv_pool :: pool_state
  sv_http_addr :: string
  sv_https_addr :: "string option"
  sv_conns :: "(nat, string \<times> 'g) hashmap"
  sv_sent :: "upstream_request list"

definition config_path :: "string list \<Rightarrow> string" where
  "config_path args = (case args of _ # p # _ \<Rightarrow> p | _ \<Rightarrow> ''proxy.toml'')"

definition startup_tls :: "'a system_env \<Rightarrow> tls_config \<Rightarrow> 'a hot_tls_acceptor option" where
  "startup_tls sys cfg =
     (if sy_exists sys (tc_cert cfg) then
        (case HotTlsAcceptor_new (sy_tls sys) cfg of Inr a \<Rightarrow> Some a | Inl e \<Rightarrow> None)
      else None)"

definition startup :: "'a system_env \<Rightarrow> string list \<Rightarrow> startup_error + ('a, 'g) server" where
  "startup sys args =
     (case Config_load (sy_read_file sys) (sy_parse sys) (config_path args) of
        Inl e \<Rightarrow> Inl (Config_Error e)
      | Inr cfg \<Rightarrow>
     (case PluginSources_load (sy_read_file sys) (c_plugins cfg) of
        Inl e \<Rightarrow> Inl (Plugin_Error e)
      | Inr srcs \<Rightarrow>
     (case spawn_watcher (sy_backend_ok sys) (sy_watch_ok sys) (c_plugins cfg) srcs of
        Inl e \<Rightarrow> Inl (Watcher_Error e)
      | Inr w \<Rightarrow>
          (let tls = startup_tls sys (c_tls cfg) in
           case UpstreamPool_init (c_upstream cfg) UpstreamPool_new of
             (Inl e, _) \<Rightarrow> Inl (Pool_Init_Error e)
           | (Inr _, pool) \<Rightarrow>
               Inr \<lparr>sv_cfg = cfg, sv_metrics = metrics_init metrics_start,
                    sv_admin = AdminServer_new (ac_addr (c_admin cfg)) srcs (c_plugins cfg) tls,
                    sv_watcher = w, sv_pool = \<lparr>pl_map = pool, pl_probes = []\<rparr>,
                    sv_http_addr = lc_http_addr (c_listener cfg),
                    sv_https_addr = (if tls = None then None else Some (lc_addr (c_listener cfg))),
                    sv_conns = hm_new, sv_sent = []\<rparr>))))"

subsection \<open>Connections\<close>

text \<open>The service function: an \<open>Err\<close> becomes a 500; \<open>None\<close>: the task of the connection panics.\<close>

definition service ::
    "('g, 'f) handler_env \<Rightarrow> string \<Rightarrow> http_request \<Rightarrow> 'g proxy_state \<Rightarrow> 'g proxy_state \<times> http_response option" where
  "service env peer rq w =
     (case handle_request env peer rq w of
        (w', Done r) \<Rightarrow> (w', Some r)
      | (w', Failed) \<Rightarrow> (w', error_response env 500 ''Internal Server Error'')
      | (w', Panic) \<Rightarrow> (w', None))"

text \<open>
  The requests of a connection, one after the other (HTTP/1), each in the environment of its
  moment.
\<close>

fun serve_connection ::
    "string \<Rightarrow> (('g, 'f) handler_env \<times> http_request) list \<Rightarrow> 'g proxy_state \<Rightarrow>
      'g proxy_state \<times> http_response list" where
  "serve_connection peer [] w = (w, [])"
| "serve_connection peer ((env, rq) # rqs) w =
     (case service env peer rq w of
        (w', None) \<Rightarrow> (w', [])
      | (w', Some r) \<Rightarrow> apsnd (Cons r) (serve_connection peer rqs w'))"

text \<open>A plain connection: a fresh Lua engine, then its requests.\<close>

definition http_connection ::
    "('g, 'f) lua_vm \<Rightarrow> (string \<times> string) list \<Rightarrow> string \<Rightarrow> (('g, 'f) handler_env \<times> http_request) list \<Rightarrow>
      'g proxy_state \<Rightarrow> 'g proxy_state \<times> http_response list" where
  "http_connection vm env_vars peer rqs w =
     (case LuaEngine_new vm env_vars of
        None \<Rightarrow> (w, [])
      | Some g \<Rightarrow> serve_connection peer rqs (w\<lparr>px_vm := g\<rparr>))"

text \<open>
  A TLS connection: the acceptor is the one in the cell when the connection is accepted;
  \<open>handshake\<close> says whether the handshake with it succeeds.
\<close>

definition https_connection ::
    "('a \<Rightarrow> bool) \<Rightarrow> 'a hot_tls_acceptor \<Rightarrow> ('g, 'f) lua_vm \<Rightarrow> (string \<times> string) list \<Rightarrow> string \<Rightarrow>
      (('g, 'f) handler_env \<times> http_request) list \<Rightarrow> 'g proxy_state \<Rightarrow> 'g proxy_state \<times> http_response list" where
  "https_connection handshake acceptor vm env_vars peer rqs w =
     (if handshake (HotTlsAcceptor_get acceptor) then http_connection vm env_vars peer rqs w else (w, []))"

text \<open>The admin loop: an \<open>Err\<close> or a panic ends the connection.\<close>

fun admin_connection ::
    "('a admin_world \<times> string \<times> string) list \<Rightarrow> 'a admin_server \<Rightarrow> 'a admin_server \<times> http_response list" where
  "admin_connection [] s = (s, [])"
| "admin_connection ((world, m, p) # rqs) s =
     (case handle_admin world m p s of
        (s', Done r) \<Rightarrow> apsnd (Cons r) (admin_connection rqs s')
      | (s', _) \<Rightarrow> (s', []))"

subsection \<open>The proxy as a whole\<close>

definition px_of :: "('a, 'g) server \<Rightarrow> 'g \<Rightarrow> 'g proxy_state" where
  "px_of s g = \<lparr>px_vm = g, px_pool = pl_map (sv_pool s), px_metrics = sv_metrics s, px_sent = sv_sent s\<rparr>"

definition px_back :: "nat \<Rightarrow> string \<Rightarrow> 'g proxy_state \<Rightarrow> ('a, 'g) server \<Rightarrow> ('a, 'g) server" where
  "px_back cid peer w s =
     s\<lparr>sv_conns := hm_insert cid (peer, px_vm w) (sv_conns s),
       sv_pool := (sv_pool s)\<lparr>pl_map := px_pool w\<rparr>, sv_metrics := px_metrics w, sv_sent := px_sent w\<rparr>"

definition share_srcs :: "plugin_sources \<Rightarrow> ('a, 'g) server \<Rightarrow> ('a, 'g) server" where
  "share_srcs ps s =
     s\<lparr>sv_admin := (sv_admin s)\<lparr>as_plugin_srcs := ps\<rparr>, sv_watcher := (sv_watcher s)\<lparr>wt_srcs := ps\<rparr>\<rparr>"

text \<open>A connection whose task has ended, because the peer closed it or because it panicked.\<close>

definition close_conn :: "nat \<Rightarrow> ('a, 'g) server \<Rightarrow> ('a, 'g) server" where
  "close_conn cid s = s\<lparr>sv_conns := filter (\<lambda>e. fst e \<noteq> cid) (sv_conns s)\<rparr>"

text \<open>
  One step, with a label that says what happened: a connection opens (with a fresh engine) or
  ends, a connection has a request (its stages may see the current sources or ones a concurrent
  reload brings; a panic ends the connection), the admin API answers a request in some world,
  the watcher or the health checks make a step.
\<close>

datatype 'a proxy_event =
    Opened nat
  | Closed nat
  | Requested nat
  | Admin_Request "'a admin_world" string string
  | Watched watch_label
  | Health pool_event

inductive proxy_step ::
    "('g, 'f) lua_vm \<Rightarrow> (string \<Rightarrow> bool) \<Rightarrow> ('a, 'g) server \<Rightarrow> 'a proxy_event \<Rightarrow> ('a, 'g) server \<Rightarrow> bool"
  for vm uri_ok where
  proxy_open: "LuaEngine_new vm env_vars = Some g \<Longrightarrow>
    proxy_step vm uri_ok s (Opened cid) (s\<lparr>sv_conns := hm_insert cid (peer, g) (sv_conns s)\<rparr>)"
| proxy_close: "proxy_step vm uri_ok s (Closed cid) (close_conn cid s)"
| proxy_request: "hm_get (sv_conns s) cid = Some (peer, g) \<Longrightarrow> he_vm env = vm \<Longrightarrow>
    (\<And>st. he_srcs env st = as_plugin_srcs (sv_admin s) \<or>
       (\<exists>rf. PluginSources_load rf (c_plugins (sv_cfg s)) = Inr (he_srcs env st))) \<Longrightarrow>
    service env peer rq (px_of s g) = (w, r) \<Longrightarrow>
    s' = (case r of Some _ \<Rightarrow> px_back cid peer w s | None \<Rightarrow> close_conn cid (px_back cid peer w s)) \<Longrightarrow>
    proxy_step vm uri_ok s (Requested cid) s'"
| proxy_admin: "aw_metrics world = sv_metrics s \<Longrightarrow> fst (handle_admin world m p (sv_admin s)) = a \<Longrightarrow>
    proxy_step vm uri_ok s (Admin_Request world m p) (share_srcs (as_plugin_srcs a) (s\<lparr>sv_admin := a\<rparr>))"
| proxy_watch: "watch_step (sv_watcher s) l w \<Longrightarrow>
    proxy_step vm uri_ok s (Watched l) (share_srcs (wt_srcs w) (s\<lparr>sv_watcher := w\<rparr>))"
| proxy_health: "pool_step uri_ok (c_upstream (sv_cfg s)) (sv_pool s) e p \<Longrightarrow>
    proxy_step vm uri_ok s (Health e) (s\<lparr>sv_pool := p\<rparr>)"

text \<open>A run of the proxy, with the labels of its steps in order.\<close>

inductive proxy_reaches ::
    "('g, 'f) lua_vm \<Rightarrow> (string \<Rightarrow> bool) \<Rightarrow> ('a, 'g) server \<Rightarrow> 'a proxy_event list \<Rightarrow> ('a, 'g) server \<Rightarrow> bool"
  for vm uri_ok where
  reaches_refl: "proxy_reaches vm uri_ok s [] s"
| reaches_step: "proxy_reaches vm uri_ok s tr s' \<Longrightarrow> proxy_step vm uri_ok s' e s'' \<Longrightarrow>
    proxy_reaches vm uri_ok s (tr @ [e]) s''"

subsection \<open>What a run leaves in the shared cells\<close>

text \<open>
  The file systems the plugin sources may have been read from: the one of the last
  \<open>POST /reload\<close> (of the start, before the first) and those of the debounce ticks since.
\<close>

fun read_from ::
    "'a proxy_event \<Rightarrow> (string \<Rightarrow> string option) list \<Rightarrow> (string \<Rightarrow> string option) list" where
  "read_from (Admin_Request world m p) rfs =
     (if m = ''POST'' \<and> p = ''/reload'' then [aw_read_file world] else rfs)"
| "read_from (Watched (Debounce rf)) rfs = rfs @ [rf]"
| "read_from _ rfs = rfs"

definition source_reads ::
    "'a system_env \<Rightarrow> 'a proxy_event list \<Rightarrow> (string \<Rightarrow> string option) list" where
  "source_reads sys tr = fold read_from tr [sy_read_file sys]"

text \<open>The TLS files and library at the start and at each \<open>POST /reload/tls\<close> of the run.\<close>

fun tls_reload :: "'a proxy_event \<Rightarrow> 'a tls_lib option" where
  "tls_reload (Admin_Request world m p) =
     (if m = ''POST'' \<and> p = ''/reload/tls'' then Some (aw_tls world) else None)"
| "tls_reload _ = None"

definition tls_builds :: "'a system_env \<Rightarrow> 'a proxy_event list \<Rightarrow> 'a tls_lib list" where
  "tls_builds sys tr = sy_tls sys # List.map_filter tls_reload tr"

lemma source_reads_simps [simp]:
  "source_reads sys [] = [sy_read_file sys]"
  "source_reads sys (tr @ [e]) = read_from e (source_reads sys tr)"
  by (simp_all add: source_reads_def)

lemma tls_builds_simps [simp]:
  "tls_builds sys [] = [sy_tls sys]"
  "tls_builds sys (tr @ [e]) =
     (case tls_reload e of None \<Rightarrow> tls_builds sys tr | Some lib \<Rightarrow> tls_builds sys tr @ [lib])"
  by (simp_all add: tls_builds_def List.map_filter_def split: option.split)

subsection \<open>The invariant of the proxy\<close>

definition srcs_ok ::
    "(string \<Rightarrow> string option) list \<Rightarrow> plugins_config \<Rightarrow> plugin_sources \<Rightarrow> bool" where
  "srcs_ok rfs cfg ps \<longleftrightarrow> list_ex (\<lambda>rf. PluginSources_load rf cfg = Inr ps) rfs"

text \<open>\<open>served\<close>: HTTPS was available at the start; \<open>libs\<close>: the builds since, the start included.\<close>

definition tls_ok ::
    "bool \<Rightarrow> 'a tls_lib list \<Rightarrow> config \<Rightarrow> string option \<Rightarrow> 'a hot_tls_acceptor option \<Rightarrow> bool" where
  "tls_ok served libs cfg addr tls \<longleftrightarrow>
     (case tls of
        None \<Rightarrow> \<not> served \<and> addr = None
      | Some h \<Rightarrow> served \<and> addr = Some (lc_addr (c_listener cfg)) \<and> hta_cfg h = c_tls cfg \<and>
          List.map_filter (\<lambda>lib. acceptor_of lib (c_tls cfg)) libs \<noteq> [] \<and>
          hta_inner h = last (List.map_filter (\<lambda>lib. acceptor_of lib (c_tls cfg)) libs))"

definition https_available :: "'a system_env \<Rightarrow> tls_config \<Rightarrow> bool" where
  "https_available sys cfg \<longleftrightarrow> sy_exists sys (tc_cert cfg) \<and> acceptor_of (sy_tls sys) cfg \<noteq> None"

definition server_ok :: "'a system_env \<Rightarrow> 'a proxy_event list \<Rightarrow> ('a, 'g) server \<Rightarrow> bool" where
  "server_ok sys tr s \<longleftrightarrow>
     metrics_ready (sv_metrics s) \<and>
     as_plugins_cfg (sv_admin s) = c_plugins (sv_cfg s) \<and> wt_cfg (sv_watcher s) = c_plugins (sv_cfg s) \<and>
     wt_srcs (sv_watcher s) = as_plugin_srcs (sv_admin s) \<and>
     srcs_ok (source_reads sys tr) (c_plugins (sv_cfg s)) (as_plugin_srcs (sv_admin s)) \<and>
     length (wt_queue (sv_watcher s)) \<le> channel_capacity \<and>
     pool_shape (pl_map (sv_pool s)) = pool_shape (pl_map (pool_start (c_upstream (sv_cfg s)))) \<and>
     tls_ok (https_available sys (c_tls (sv_cfg s))) (tls_builds sys tr) (sv_cfg s)
       (sv_https_addr s) (as_tls_acceptor (sv_admin s))"

lemma startup_Inr:
  assumes "startup sys args = Inr s"
  obtains cfg srcs w where
    "Config_load (sy_read_file sys) (sy_parse sys) (config_path args) = Inr cfg"
    "PluginSources_load (sy_read_file sys) (c_plugins cfg) = Inr srcs"
    "spawn_watcher (sy_backend_ok sys) (sy_watch_ok sys) (c_plugins cfg) srcs = Inr w"
    "s = \<lparr>sv_cfg = cfg, sv_metrics = metrics_init metrics_start,
        sv_admin = AdminServer_new (ac_addr (c_admin cfg)) srcs (c_plugins cfg) (startup_tls sys (c_tls cfg)),
        sv_watcher = w, sv_pool = pool_start (c_upstream cfg),
        sv_http_addr = lc_http_addr (c_listener cfg),
        sv_https_addr = (if startup_tls sys (c_tls cfg) = None then None else Some (lc_addr (c_listener cfg))),
        sv_conns = hm_new, sv_sent = []\<rparr>"
  using assms
  by (auto simp: startup_def UpstreamPool_init_def pool_start_def Let_def split: sum.splits)

lemma startup_tls_ok:
  "tls_ok (https_available sys (c_tls cfg)) [sy_tls sys] cfg
     (if startup_tls sys (c_tls cfg) = None then None else Some (lc_addr (c_listener cfg)))
     (startup_tls sys (c_tls cfg))"
  by (auto simp: tls_ok_def startup_tls_def HotTlsAcceptor_new_def https_available_def acceptor_of_def
      List.map_filter_simps split: sum.splits option.splits)

lemma startup_ok:
  assumes "startup sys args = Inr s"
  shows "server_ok sys [] s"
  using assms
proof (rule startup_Inr)
  fix cfg srcs w
  assume "PluginSources_load (sy_read_file sys) (c_plugins cfg) = Inr srcs"
    "spawn_watcher (sy_backend_ok sys) (sy_watch_ok sys) (c_plugins cfg) srcs = Inr w"
    "s = \<lparr>sv_cfg = cfg, sv_metrics = metrics_init metrics_start,
        sv_admin = AdminServer_new (ac_addr (c_admin cfg)) srcs (c_plugins cfg) (startup_tls sys (c_tls cfg)),
        sv_watcher = w, sv_pool = pool_start (c_upstream cfg),
        sv_http_addr = lc_http_addr (c_listener cfg),
        sv_https_addr = (if startup_tls sys (c_tls cfg) = None then None else Some (lc_addr (c_listener cfg))),
        sv_conns = hm_new, sv_sent = []\<rparr>"
  then show "server_ok sys [] s"
    using startup_tls_ok [of sys cfg]
    by (auto simp: server_ok_def AdminServer_new_def metrics_init_start spawn_watcher_def srcs_ok_def
        split: if_splits)
qed

text \<open>What an admin request does to the shared cells, in the terms of the invariant.\<close>

lemma handle_admin_srcs_ok:
  assumes "srcs_ok rfs (as_plugins_cfg s) (as_plugin_srcs s)"
  shows "srcs_ok (read_from (Admin_Request world m p) rfs) (as_plugins_cfg s)
    (as_plugin_srcs (fst (handle_admin world m p s)))"
proof -
  obtain ps where "PluginSources_load (aw_read_file world) (as_plugins_cfg s) = Inr ps"
    and "as_plugin_srcs (fst (admin_reload world s)) = ps"
    using admin_reload_eq [of world s] by fastforce
  then show ?thesis using assms by (auto simp: handle_admin_srcs srcs_ok_def is_reload_def)
qed

lemma handle_admin_tls_ok:
  assumes "tls_ok served libs cfg addr (as_tls_acceptor s)"
  shows "tls_ok served (libs @ (case tls_reload (Admin_Request world m p) of None \<Rightarrow> [] | Some lib \<Rightarrow> [lib]))
    cfg addr (as_tls_acceptor (fst (handle_admin world m p s)))"
proof (cases "(m, p) = (''POST'', ''/reload/tls'')")
  case True
  with assms show ?thesis
    by (auto simp: handle_admin_def admin_reload_tls_def HotTlsAcceptor_reload_def tls_ok_def acceptor_of_def
        List.map_filter_simps split: option.splits sum.splits prod.splits)
next
  case False
  with assms show ?thesis by (auto simp: handle_admin_tls)
qed

lemma watch_step_srcs_ok:
  assumes "watch_step s l s'" and "srcs_ok rfs (wt_cfg s) (wt_srcs s)"
  shows "srcs_ok (read_from (Watched l) rfs) (wt_cfg s) (wt_srcs s')"
  using assms
proof (cases rule: watch_step.cases)
  case (watch_tick rf)
  obtain ps where ps: "PluginSources_load rf (wt_cfg s) = Inr ps" using PluginSources_load_total by blast
  from debounce_srcs [OF ps] ps watch_tick assms(2) show ?thesis by (auto simp: srcs_ok_def)
qed auto

lemma service_keeps:
  assumes "metrics_ready (px_metrics w)" and "service env peer rq w = (w', r)"
  shows "metrics_ready (px_metrics w')" and "pool_shape (px_pool w') = pool_shape (px_pool w)"
proof -
  obtain out where "handle_request env peer rq w = (w', out)"
    using assms(2) by (auto simp: service_def split: prod.splits outcome.splits)
  with handle_request_keeps [OF assms(1)] show "metrics_ready (px_metrics w')"
    and "pool_shape (px_pool w') = pool_shape (px_pool w)" by blast+
qed

lemma close_conn_ok [simp]: "server_ok sys tr (close_conn cid s) = server_ok sys tr s"
  "sv_cfg (close_conn cid s) = sv_cfg s"
  by (simp_all add: server_ok_def close_conn_def)

lemma proxy_step_ok:
  assumes "proxy_step vm uri_ok s e s'" and "server_ok sys tr s"
  shows "server_ok sys (tr @ [e]) s' \<and> sv_cfg s' = sv_cfg s"
  using assms
proof (cases rule: proxy_step.cases)
  case (proxy_request cid peer g env rq w r)
  from service_keeps [OF _ proxy_request(5)] assms(2)
  have "server_ok sys (tr @ [e]) (px_back cid peer w s)"
    by (simp add: proxy_request(1) px_back_def px_of_def server_ok_def)
  then show ?thesis by (simp add: proxy_request(6) px_back_def split: option.split)
next
  case (proxy_admin world m p a)
  have "a = fst (handle_admin world m p (sv_admin s))" using proxy_admin by simp
  with handle_admin_srcs_ok [of "source_reads sys tr" "sv_admin s" world m p]
    handle_admin_tls_ok [of "https_available sys (c_tls (sv_cfg s))" "tls_builds sys tr" "sv_cfg s"
      "sv_https_addr s" "sv_admin s" world m p] assms(2)
  show ?thesis
    by (auto simp: proxy_admin(1,2) share_srcs_def server_ok_def handle_admin_srcs(2) simp del: read_from.simps)
next
  case (proxy_watch l w)
  have cap: "length (wt_queue (sv_watcher s)) \<le> channel_capacity" using assms(2) by (simp add: server_ok_def)
  from watch_step_bounded [OF proxy_watch(3) cap]
    watch_step_srcs_ok [OF proxy_watch(3), of "source_reads sys tr"] assms(2)
  show ?thesis by (auto simp: proxy_watch(1,2) share_srcs_def server_ok_def simp del: read_from.simps)
next
  case (proxy_health e p)
  with pool_step_shape [OF proxy_health(3)] assms(2) show ?thesis by (simp add: server_ok_def)
next
  case (proxy_close cid)
  with assms(2) show ?thesis by (simp add: server_ok_def close_conn_def)
qed (simp_all add: server_ok_def)

lemma proxy_reaches_ok:
  "proxy_reaches vm uri_ok s tr s' \<Longrightarrow> server_ok sys [] s \<Longrightarrow> server_ok sys tr s' \<and> sv_cfg s' = sv_cfg s"
  by (induction rule: proxy_reaches.induct) (auto dest: proxy_step_ok)

subsection \<open>Answers of a connection\<close>

lemma service_None:
  assumes "metrics_ready (px_metrics w)" and "he_status_ok env 500" "he_status_ok env 502" "he_status_ok env 503"
    and "service env peer rq w = (w', None)"
  shows "\<exists>body status msg. rq_body rq = Some body \<and>
    rejected (snd (after_on_request env peer rq body (px_vm w))) = Some (status, msg) \<and> \<not> he_status_ok env status"
proof -
  have "snd (handle_request env peer rq w) = Panic"
    using assms(2,5) by (auto simp: service_def error_response_def split: prod.splits outcome.splits)
  with handle_request_panic [OF assms(1,3,4)] show ?thesis by blast
qed

lemma serve_connection_stops:
  "serve_connection peer rqs w = (w', rs) \<Longrightarrow> metrics_ready (px_metrics w) \<Longrightarrow>
     length rs = length rqs \<or>
     (\<exists>w1 env rq. length rs < length rqs \<and> rqs ! length rs = (env, rq) \<and>
        serve_connection peer (take (length rs) rqs) w = (w1, rs) \<and> metrics_ready (px_metrics w1) \<and>
        service env peer rq w1 = (w', None))"
proof (induction rqs arbitrary: w rs)
  case (Cons e rqs)
  obtain env rq where e: "e = (env, rq)" by (cases e)
  obtain w1 r where sv: "service env peer rq w = (w1, r)" by (cases "service env peer rq w")
  show ?case
  proof (cases r)
    case None
    with Cons.prems e sv show ?thesis by auto
  next
    case (Some resp)
    with Cons.prems e sv obtain rs' where rs: "rs = resp # rs'" and rest: "serve_connection peer rqs w1 = (w', rs')"
      by (auto simp: apsnd_def map_prod_def split: prod.splits)
    have "metrics_ready (px_metrics w1)" using service_keeps(1) [OF Cons.prems(2) sv] .
    with Cons.IH [OF rest] show ?thesis by (auto simp: e rs sv Some)
  qed
qed simp

lemma serve_connection_length: "serve_connection peer rqs w = (w', rs) \<Longrightarrow> length rs \<le> length rqs"
  by (induction rqs arbitrary: w rs) (auto simp: apsnd_def map_prod_def split: prod.splits option.splits)

text \<open>The answer to a request is that of the service function, on the state left by those before.\<close>

lemma serve_connection_nth:
  "serve_connection peer rqs w = (w', rs) \<Longrightarrow> i < length rs \<Longrightarrow> rqs ! i = (env, rq) \<Longrightarrow>
     serve_connection peer (take i rqs) w = (w1, rs1) \<Longrightarrow>
     rs1 = take i rs \<and> snd (service env peer rq w1) = Some (rs ! i)"
proof (induction rqs arbitrary: w rs i rs1)
  case (Cons e rqs)
  obtain env0 rq0 where e: "e = (env0, rq0)" by (cases e)
  obtain w2 r where sv: "service env0 peer rq0 w = (w2, r)" by (cases "service env0 peer rq0 w")
  with Cons.prems(1,2) e obtain resp rs' where r: "r = Some resp" and rs: "rs = resp # rs'"
    and rest: "serve_connection peer rqs w2 = (w', rs')"
    by (auto simp: apsnd_def map_prod_def split: prod.splits option.splits)
  show ?case
  proof (cases i)
    case 0
    with Cons.prems e sv r rs show ?thesis by simp
  next
    case (Suc k)
    with Cons.prems(4) e sv r obtain rs2 where rs2: "serve_connection peer (take k rqs) w2 = (w1, rs2)" "rs1 = resp # rs2"
      by (auto simp: apsnd_def map_prod_def split: prod.splits)
    from Cons.IH [OF rest _ _ rs2(1)] Cons.prems(2,3) Suc rs show ?thesis by (simp add: rs2(2))
  qed
qed simp

subsection \<open>Properties\<close>

text \<open>
  C2. The proxy as a whole, in every state it can reach by opening and closing connections,
  requests, admin requests, file events and health checks in any order: the metrics are set up,
  so no request panics on them; the plugin sources are the configured pipeline, loaded from the
  file system of the last \<open>POST /reload\<close> (of the start, if there was none) or of a debounce tick
  since, and the watcher sees the same as the admin API; every upstream has the configured URLs;
  HTTPS is served exactly if at the start the certificate file existed and the acceptor could be
  built, and the acceptor in use is the last one that a build from the configured files gave,
  among the start and the \<open>POST /reload/tls\<close> requests of the run.
\<close>

theorem proxy_invariant:
  assumes "startup sys args = Inr s0" and "proxy_reaches vm uri_ok s0 tr s"
  shows "metrics_ready (sv_metrics s) \<and>
    (\<exists>rf. rf \<in> set (source_reads sys tr) \<and>
       PluginSources_load rf (c_plugins (sv_cfg s0)) = Inr (as_plugin_srcs (sv_admin s))) \<and>
    ps_pipeline (as_plugin_srcs (sv_admin s)) = pc_pipeline (c_plugins (sv_cfg s0)) \<and>
    wt_srcs (sv_watcher s) = as_plugin_srcs (sv_admin s) \<and> length (wt_queue (sv_watcher s)) \<le> channel_capacity \<and>
    (\<forall>n. map_option (\<lambda>lb. map url (dyn_targets lb)) (hm_get (pl_map (sv_pool s)) n) =
         map_option uc_targets (find (\<lambda>c. uc_name c = n) (rev (c_upstream (sv_cfg s0))))) \<and>
    (if sy_exists sys (tc_cert (c_tls (sv_cfg s0))) \<and> acceptor_of (sy_tls sys) (c_tls (sv_cfg s0)) \<noteq> None
     then sv_https_addr s = Some (lc_addr (c_listener (sv_cfg s0))) \<and>
       map_option HotTlsAcceptor_get (as_tls_acceptor (sv_admin s)) =
         Some (last (List.map_filter (\<lambda>lib. acceptor_of lib (c_tls (sv_cfg s0))) (tls_builds sys tr)))
     else sv_https_addr s = None \<and> as_tls_acceptor (sv_admin s) = None)"
proof -
  have ok: "server_ok sys tr s" and cfg: "sv_cfg s = sv_cfg s0"
    using proxy_reaches_ok [OF assms(2) startup_ok [OF assms(1)]] by simp_all
  have "map_option (\<lambda>lb. map url (dyn_targets lb)) (hm_get (pl_map (sv_pool s)) n) =
      map_option uc_targets (find (\<lambda>c. uc_name c = n) (rev (c_upstream (sv_cfg s0))))" for n
  proof -
    have "map_option shape (hm_get (pl_map (sv_pool s)) n) =
        map_option (shape \<circ> init_balancer) (find (\<lambda>c. uc_name c = n) (rev (c_upstream (sv_cfg s0))))"
      using ok cfg by (simp add: server_ok_def pool_shape_def fun_eq_iff pool_start_get option.map_comp)
    then have "map_option (fst \<circ> snd) (map_option shape (hm_get (pl_map (sv_pool s)) n)) =
        map_option (fst \<circ> snd) (map_option (shape \<circ> init_balancer) (find (\<lambda>c. uc_name c = n) (rev (c_upstream (sv_cfg s0)))))"
      by (simp only:)
    then show ?thesis by (simp add: option.map_comp comp_def shape_targets)
  qed
  moreover have srcs: "\<exists>rf. rf \<in> set (source_reads sys tr) \<and>
       PluginSources_load rf (c_plugins (sv_cfg s0)) = Inr (as_plugin_srcs (sv_admin s))"
    using ok cfg by (auto simp: server_ok_def srcs_ok_def list_ex_iff)
  moreover have "ps_pipeline (as_plugin_srcs (sv_admin s)) = pc_pipeline (c_plugins (sv_cfg s0))"
    using srcs PluginSources_load_sources(1) by blast
  moreover have "if sy_exists sys (tc_cert (c_tls (sv_cfg s0))) \<and> acceptor_of (sy_tls sys) (c_tls (sv_cfg s0)) \<noteq> None
     then sv_https_addr s = Some (lc_addr (c_listener (sv_cfg s0))) \<and>
       map_option HotTlsAcceptor_get (as_tls_acceptor (sv_admin s)) =
         Some (last (List.map_filter (\<lambda>lib. acceptor_of lib (c_tls (sv_cfg s0))) (tls_builds sys tr)))
     else sv_https_addr s = None \<and> as_tls_acceptor (sv_admin s) = None"
    using ok cfg
    by (auto simp: server_ok_def tls_ok_def https_available_def HotTlsAcceptor_get_def split: option.splits)
  ultimately show ?thesis using ok by (simp add: server_ok_def)
qed


text \<open>
  C15. A connection gets one answer per request, in order: what the handler returned for it, run
  on the state the requests before it left, or, if the handler ended in an error, the JSON error
  500 \<open>Internal Server Error\<close>, after which the connection goes on. It ends early only at a
  request that an \<open>on_request\<close> run has left rejected with an invalid status.
\<close>

theorem connection_answers:
  assumes "metrics_ready (px_metrics w)" and "serve_connection peer rqs w = (w', rs)"
    and "list_all (\<lambda>(env, rq). he_status_ok env 500 \<and> he_status_ok env 502 \<and> he_status_ok env 503) rqs"
  shows "(\<forall>i env rq w1 rs1. i < length rs \<and> rqs ! i = (env, rq) \<and>
        serve_connection peer (take i rqs) w = (w1, rs1) \<longrightarrow>
      rs1 = take i rs \<and>
      (case snd (handle_request env peer rq w1) of
         Done r \<Rightarrow> rs ! i = r
       | Failed \<Rightarrow> rs ! i = \<lparr>rp_status = 500, rp_headers = [(''content-type'', ''application/json'')],
                              rp_body = as_bytes (error_body 500 ''Internal Server Error'')\<rparr>
       | Panic \<Rightarrow> False)) \<and>
    (length rs = length rqs \<or>
     (\<exists>w1 env rq body status msg. length rs < length rqs \<and> rqs ! length rs = (env, rq) \<and>
        serve_connection peer (take (length rs) rqs) w = (w1, rs) \<and> rq_body rq = Some body \<and>
        rejected (snd (after_on_request env peer rq body (px_vm w1))) = Some (status, msg) \<and>
        \<not> he_status_ok env status))"
proof (intro conjI allI impI)
  fix i env rq w1 rs1
  assume i: "i < length rs \<and> rqs ! i = (env, rq) \<and> serve_connection peer (take i rqs) w = (w1, rs1)"
  from serve_connection_nth [OF assms(2), of i env rq w1 rs1] i
  have rs1: "rs1 = take i rs" and sv: "snd (service env peer rq w1) = Some (rs ! i)" by simp_all
  show "rs1 = take i rs" by (rule rs1)
  have "i < length rqs" using i serve_connection_length [OF assms(2)] by simp
  with assms(3) i have "he_status_ok env 500" by (auto simp: list_all_length)
  with sv show "case snd (handle_request env peer rq w1) of
         Done r \<Rightarrow> rs ! i = r
       | Failed \<Rightarrow> rs ! i = \<lparr>rp_status = 500, rp_headers = [(''content-type'', ''application/json'')],
                              rp_body = as_bytes (error_body 500 ''Internal Server Error'')\<rparr>
       | Panic \<Rightarrow> False"
    by (auto simp: service_def error_response_def split: prod.splits outcome.splits)
next
  show "length rs = length rqs \<or>
     (\<exists>w1 env rq body status msg. length rs < length rqs \<and> rqs ! length rs = (env, rq) \<and>
        serve_connection peer (take (length rs) rqs) w = (w1, rs) \<and> rq_body rq = Some body \<and>
        rejected (snd (after_on_request env peer rq body (px_vm w1))) = Some (status, msg) \<and>
        \<not> he_status_ok env status)"
  proof (cases "length rs = length rqs")
    case False
    with serve_connection_stops [OF assms(2,1)] obtain w1 env rq where stop: "length rs < length rqs"
      "rqs ! length rs = (env, rq)" "serve_connection peer (take (length rs) rqs) w = (w1, rs)"
      "metrics_ready (px_metrics w1)" "service env peer rq w1 = (w', None)" by blast
    from stop(1,2) assms(3) have "he_status_ok env 500" "he_status_ok env 502" "he_status_ok env 503"
      by (auto simp: list_all_length split: prod.splits)
    from service_None [OF stop(4) this stop(5)] stop show ?thesis by blast
  qed simp
qed

theorem connection_answers_witness:
  "length (snd (serve_connection ''10.1.1.1''
     [(sample_env (\<lambda>_. None) no_plugins (\<lambda>_. No_Answer), sample_request\<lparr>rq_body := None\<rparr>),
      (sample_env (\<lambda>_. None) no_plugins (\<lambda>_. No_Answer), sample_request)] sample_state)) = 2"
proof -
  let ?env = "sample_env (\<lambda>_. None) no_plugins (\<lambda>_. No_Answer)"
  let ?rqs = "[(?env, sample_request\<lparr>rq_body := None\<rparr>), (?env, sample_request)]"
  have free: "rejected (snd (after_on_request ?env ''10.1.1.1'' rq body g)) = None" for rq body g
    by (simp add: after_on_request_def first_ctx_def RequestCtx_new_def Let_def)
  have "list_all (\<lambda>(env, rq). he_status_ok env 500 \<and> he_status_ok env 502 \<and> he_status_ok env 503) ?rqs" by simp
  moreover obtain w' rs where run: "serve_connection ''10.1.1.1'' ?rqs sample_state = (w', rs)" by (metis prod.exhaust)
  ultimately consider "length rs = length ?rqs"
    | "\<exists>w1 env rq body status msg. length rs < length ?rqs \<and> ?rqs ! length rs = (env, rq) \<and>
       serve_connection ''10.1.1.1'' (take (length rs) ?rqs) sample_state = (w1, rs) \<and> rq_body rq = Some body \<and>
       rejected (snd (after_on_request env ''10.1.1.1'' rq body (px_vm w1))) = Some (status, msg) \<and>
       \<not> he_status_ok env status"
    using connection_answers [OF sample_ready run] by blast
  then have "length rs = length ?rqs"
  proof cases
    case 2
    then obtain w1 :: "script_state proxy_state" and env rq body status msg where "length rs < length ?rqs" "?rqs ! length rs = (env, rq)"
      "rejected (snd (after_on_request env ''10.1.1.1'' rq body (px_vm w1))) = Some (status, msg)" by blast
    moreover from this(1,2) have "(env, rq) \<in> set ?rqs" by (metis nth_mem)
    ultimately show ?thesis using free by auto
  qed
  then have "length (snd (serve_connection ''10.1.1.1'' ?rqs sample_state)) = length ?rqs"
    unfolding run snd_conv .
  moreover have "length ?rqs = 2" by simp
  ultimately show ?thesis by (rule trans)
qed

theorem proxy_invariant_witness:
  "\<exists>s :: (nat, nat) server. map_option HotTlsAcceptor_get (as_tls_acceptor (sv_admin s)) = Some 2 \<and>
     map_option (\<lambda>lb. map url (dyn_targets lb)) (hm_get (pl_map (sv_pool s)) ''default'') = Some [''http://a''] \<and>
     sv_https_addr s = Some ''0.0.0.0:8443'' \<and> metrics_ready (sv_metrics s) \<and>
     hm_get (ps_sources (as_plugin_srcs (sv_admin s))) ''auth.lua'' = Some ''new''"
proof -
  let ?raw = "\<lparr>raw_listener = \<lparr>raw_addr = ''0.0.0.0:8443'', raw_http_addr = ''0.0.0.0:8080'', raw_workers = None\<rparr>,
     raw_tls = \<lparr>tc_cert = ''cert.pem'', tc_key = ''key.pem''\<rparr>, raw_admin = \<lparr>ac_addr = ''127.0.0.1:9000''\<rparr>,
     raw_plugins = \<lparr>pc_dir = ''plugins'', pc_pipeline = [''auth.lua'']\<rparr>,
     raw_upstreams = [\<lparr>raw_name = ''default'', raw_targets = [''http://a''], raw_lb = None, raw_health_path = None,
       raw_health_interval = None\<rparr>]\<rparr>"
  define lib :: "nat \<Rightarrow> nat tls_lib" where
    "lib k = \<lparr>tl_open = (\<lambda>_. Some []), tl_certs = (\<lambda>_. []), tl_keys = (\<lambda>_. [Inr []]),
      tl_single_cert = (\<lambda>_ _. if k = 0 then Inl [] else Inr k)\<rparr>" for k
  have acc: "acceptor_of (lib k) cfg = (if k = 0 then None else Some k)" for k cfg
    by (simp add: acceptor_of_def build_acceptor_def lib_def)
  define sys :: "nat system_env" where "sys = \<lparr>sy_read_file = (\<lambda>_. Some ''old''), sy_parse = (\<lambda>_. Some ?raw),
     sy_exists = (\<lambda>_. True), sy_tls = lib 1, sy_backend_ok = True, sy_watch_ok = (\<lambda>_. True)\<rparr>"
  obtain s0 :: "(nat, nat) server" where s0: "startup sys [] = Inr s0" and cfg: "sv_cfg s0 = fill_config ?raw"
    by (simp add: startup_def sys_def Config_load_def PluginSources_load_def spawn_watcher_def
        UpstreamPool_init_def Let_def)
  let ?world = "\<lambda>k. \<lparr>aw_read_file = (\<lambda>_. Some ''new''), aw_tls = lib k, aw_metrics = sv_metrics s0,
    aw_encode = (\<lambda>_. [])\<rparr>"
  let ?vm = "\<lparr>vm_init = (\<lambda>_. Some 0), vm_exec = (\<lambda>_ _ _ g. (g, [], True)), vm_global = (\<lambda>_ _. None),
    vm_call = (\<lambda>_ _ g. (g, [], Ret_Nil))\<rparr> :: (nat, nat) lua_vm"
  have admin: "\<exists>s'. proxy_step ?vm (\<lambda>_. True) s (Admin_Request (?world k) m p) s' \<and> sv_metrics s' = sv_metrics s"
    if "sv_metrics s = sv_metrics s0" for s k m p
    using proxy_admin [of "?world k" s m p _ ?vm] that by (fastforce simp: share_srcs_def)
  let ?tls = "\<lambda>k. Admin_Request (?world k) ''POST'' ''/reload/tls''"
  obtain s1 where s1: "proxy_step ?vm (\<lambda>_. True) s0 (?tls 2) s1" "sv_metrics s1 = sv_metrics s0"
    using admin [of s0] by blast
  obtain s2 where s2: "proxy_step ?vm (\<lambda>_. True) s1 (?tls 0) s2" "sv_metrics s2 = sv_metrics s0"
    using admin [of s1] s1 by metis
  obtain s3 where s3: "proxy_step ?vm (\<lambda>_. True) s2 (Admin_Request (?world 0) ''POST'' ''/reload'') s3"
    using admin [of s2] s2 by metis
  let ?tr = "[?tls 2, ?tls 0, Admin_Request (?world 0) ''POST'' ''/reload'']"
  let ?p = "(sv_pool s3)\<lparr>pl_probes := pl_probes (sv_pool s3) @ launch_probes (c_upstream (sv_cfg s3)) (pl_map (sv_pool s3))\<rparr>"
  let ?s = "s3\<lparr>sv_pool := ?p\<rparr>"
  have run: "proxy_reaches ?vm (\<lambda>_. True) s0 ?tr s3"
    using reaches_step [OF reaches_step [OF reaches_step [OF reaches_refl s1(1)] s2(1)] s3] by simp
  have "proxy_reaches ?vm (\<lambda>_. True) s0 (?tr @ [Health Tick]) ?s"
    by (rule reaches_step [OF run proxy_health]) (rule step_tick)
  note inv = proxy_invariant [OF s0 this, unfolded cfg]
  have reads: "source_reads sys (?tr @ [Health Tick]) = [\<lambda>_. Some ''new'']"
    by (simp add: source_reads_def)
  have builds: "tls_builds sys (?tr @ [Health Tick]) = [lib 1, lib 2, lib 0]"
    by (simp add: tls_builds_def sys_def)
  have "PluginSources_load (\<lambda>_. Some ''new'') (c_plugins (fill_config ?raw)) = Inr (as_plugin_srcs (sv_admin ?s))"
    using inv unfolding reads by auto
  from PluginSources_load_sources(2) [OF this, of "''auth.lua''"]
  have "hm_get (ps_sources (as_plugin_srcs (sv_admin ?s))) ''auth.lua'' = Some ''new''" by simp
  moreover have "sy_exists sys f" "acceptor_of (sy_tls sys) c = Some 1" for f c
    by (simp_all add: sys_def acc)
  with inv have "map_option HotTlsAcceptor_get (as_tls_acceptor (sv_admin ?s)) = Some 2"
    "sv_https_addr ?s = Some ''0.0.0.0:8443''" unfolding builds by (simp_all add: acc fill_listener_def)
  moreover from inv have "metrics_ready (sv_metrics ?s)"
    "map_option (\<lambda>lb. map url (dyn_targets lb)) (hm_get (pl_map (sv_pool ?s)) ''default'') = Some [''http://a'']"
    by (simp_all add: fill_upstream_def)
  ultimately show ?thesis by (intro exI [of _ ?s] conjI)
qed

end
