(* ===== verification/Spec2Isabelle.thy ===== *)
theory Spec2Isabelle
  imports Base64 Globals JsonHeap Concurrent Server
begin

text \<open>
  A model of \<open>dgsw-class-pg-proxy\<close>, an HTTP reverse proxy in Rust whose requests pass through Lua
  plugins. A request arrives on an HTTP or HTTPS connection (\<open>src/main.rs\<close>), is turned into a
  request context and handled (\<open>src/handler.rs\<close>): the \<open>on_request\<close>, \<open>on_route\<close> and
  \<open>on_transform\<close> hooks of the plugin pipeline run (\<open>src/lua\<close>), a target is selected from the
  upstream pool (\<open>src/upstream\<close>), the request is forwarded, and the \<open>on_response\<close> hooks run on the
  answer. Beside that, health checks update the flags of the targets, a file watcher
  (\<open>src/watcher.rs\<close>) and the admin API (\<open>src/admin.rs\<close>) replace the plugin sources, and the admin
  API rotates the TLS certificates (\<open>src/tls.rs\<close>) and exports metrics (\<open>src/metrics.rs\<close>).

  Theories, in the order of the code's dependencies:

  \<^item> \<open>Prelude\<close>: machine integers, strings as UTF-8 bytes, \<open>HashMap\<close>, the functions of the standard
    library the sources call, and the interfaces (locales) \<open>keyed_store\<close>, \<open>iterable_store\<close>
    (interpreted on \<open>HashMap\<close>) and \<open>reloadable\<close> (interpreted on the TLS acceptor in \<open>Tls\<close> and on the
    plugin sources in \<open>Admin\<close>).
  \<^item> \<open>Utf8\<close>: \<open>String::from_utf8\<close> and \<open>from_utf8_lossy\<close>.
  \<^item> \<open>Config\<close>: the records of \<open>src/config.rs\<close>, their serde defaults and \<open>Config::load\<close>.
  \<^item> \<open>Context\<close>: \<open>RequestCtx\<close> and the methods and fields of \<open>LuaCtx\<close> (\<open>src/lua/context.rs\<close>); the locales
    \<open>ctx_invariant\<close> and \<open>ctx_frame\<close> say what every method, and so every hook, keeps.
  \<^item> \<open>Engine\<close>, \<open>Globals\<close>, \<open>Base64\<close>, \<open>Json\<close>, \<open>JsonHeap\<close>, \<open>LuaUtil\<close>: \<open>src/lua/engine.rs\<close>, that is plugin
    sources, registered globals, the four hook loops, and the \<open>base64\<close>, \<open>json\<close>, \<open>hmac\<close> and \<open>uuid\<close>
    utilities. The two loops that stop early are compared with \<open>all_turns\<close>, the turns of all
    plugins without stopping. \<open>Json\<close> has the JSON encoder on trees, \<open>JsonHeap\<close> on a heap of tables.
  \<^item> \<open>Trace\<close>: stages, the locale \<open>vm_simulation\<close> (replacing the virtual machine by one that does the
    same), a machine that records its calls, and a machine for concrete plugins.
  \<^item> \<open>SipHash\<close>, \<open>Balancer\<close>, \<open>Concurrent\<close>: \<open>src/upstream/balancer.rs\<close>; the locale \<open>balancer\<close> is the trait,
    interpreted on each implementation; \<open>Concurrent\<close> splits \<open>RoundRobin::next\<close> into its atomic steps.
  \<^item> \<open>Pool\<close>: \<open>src/upstream/pool.rs\<close>, with the health checks as a step relation.
  \<^item> \<open>Metrics\<close>, \<open>Handler\<close>, \<open>HandlerProps\<close>, \<open>HookOrder\<close>, \<open>ErrorBody\<close>: \<open>src/metrics.rs\<close> and
    \<open>src/handler.rs\<close>; what a request may do and is answered with, the order of its hooks, and the
    JSON bodies built by hand.
  \<^item> \<open>Tls\<close>, \<open>Admin\<close>, \<open>Watcher\<close>, \<open>Server\<close>: \<open>src/tls.rs\<close>, \<open>src/admin.rs\<close>, \<open>src/watcher.rs\<close> and
    \<open>src/main.rs\<close>; \<open>Server\<close> puts the tasks together in the step relation \<open>proxy_step\<close> and proves the
    invariant of the whole proxy.

  State is passed explicitly. What Rust shares behind \<open>Arc\<close> is a component of the state of the
  step relation that models the tasks sharing it: the flags of the targets in \<open>pool_state\<close> and
  \<open>rr_shared\<close>, the plugin sources and the acceptor in \<open>server\<close>. Panics, \<open>Err\<close> results and early
  returns are values (\<open>outcome\<close>, sums, options). Counters and integers have their width
  (\<open>usize\<close> is 64 bits), so \<open>fetch_add\<close> wraps around. The loops inside an operation run over
  finite lists and end; the endless loops of the tasks are step relations. The one recursion
  that need not end is that of the JSON encoder over Lua tables: \<open>encode_with\<close> runs it with a
  stack of \<open>d\<close> frames and gives \<open>None\<close> on an overflow; \<open>encode_cyclic_overflows\<close> shows that a table
  that contains itself overflows every stack, \<open>encode_acyclic_returns\<close> that without cycles some
  stack is enough, and \<open>encode_with_unfold\<close> that the result is then that of \<open>lua_value_to_json\<close>
  on the tree. Entries of a sequence whose \<open>get\<close> fails in a metamethod are left out, as in the
  code. The capacity 32 of the watcher's channel is the code's own bound.

  What is outside the sources is a parameter: the Lua virtual machine (\<open>lua_vm\<close>; what Lua code
  does to a context is the list of \<open>LuaCtx\<close> calls it makes), the \<open>http\<close> and \<open>hyper\<close> crates (fields of
  \<open>handler_env\<close>), prometheus' text encoder, the file system, \<open>toml\<close>, PEM parsing and rustls,
  HMAC-SHA256, \<open>f64::to_string\<close>, the clock, and the Unicode part of \<open>to_lowercase\<close>. Not modelled:
  logging, socket accept and shutdown, and the Lua plugins themselves.

  What the lemmas show, by group: frames and invariants of the context under any plugin
  (\<open>Context\<close>, \<open>Engine\<close>); where the pipelines stop and who decides the route (\<open>Engine\<close>, \<open>Trace\<close>);
  soundness, fairness and linearizability of the selections (\<open>Balancer\<close>, \<open>Concurrent\<close>, \<open>Pool\<close>);
  what is forwarded, answered, counted and when the handler panics (\<open>HandlerProps\<close>), where
  "rejected" always means by an \<open>on_request\<close> run, since the handler does not look again and
  \<open>late_rejection_ignored\<close> shows that later rejections have no effect; the order of hooks (\<open>HookOrder\<close>); that reloads are atomic and never lose a change (\<open>Tls\<close>, \<open>Admin\<close>,
  \<open>Watcher\<close>); the exact strength of the hand-written encoders (\<open>Base64\<close>, \<open>Json\<close>, \<open>LuaUtil\<close>,
  \<open>ErrorBody\<close>); start-up, connections and the global invariant (\<open>Server\<close>).

  The run of the whole proxy carries the list of its labels (\<open>proxy_event\<close>), from which
  \<open>source_reads\<close> and \<open>tls_builds\<close> read the file systems the shared cells were filled from.

  Open ends: concrete models of the shipped Lua plugins, and a model in which the stages of
  several requests interleave on the shared pool (a request is one step of \<open>proxy_step\<close>).
\<close>

end
